theory Spec2Isabelle
  imports Complex_Main "HOL-Library.AList" "HOL-Library.FSet"
begin

section \<open>Weekly planner: the in-memory state model\<close>

text \<open>
  A shallow embedding of the state-handling core of the weekly planner
  (\<^verbatim>\<open>store.js\<close>, \<^verbatim>\<open>utils.js\<close>, \<^verbatim>\<open>items.js\<close>, \<^verbatim>\<open>bundles.js\<close>,
  \<^verbatim>\<open>shopping.js\<close>, \<^verbatim>\<open>weekly.js\<close>).  The global \<^verbatim>\<open>state\<close> object is a record that
  every operation takes and returns; persistence (\<^verbatim>\<open>save...\<close>) and rendering are not
  part of the model.

  Conventions of the embedding:
  \<^item> a JavaScript string is a list of code units below 256 (Latin-1);
  \<^item> a JavaScript number is \<open>jsnum\<close>: \<open>NaN\<close>, the two infinities, or an exact
    rational (\<open>-0\<close> is identified with \<open>0\<close>; the rounding and overflow of IEEE doubles
    are not modelled, so arithmetic is exact);
  \<^item> a plain object used as a dictionary is an association list of its own
    properties in creation order; where the code reads such an object under a key
    that its callers choose (the item index, the unit groups of
    \<^verbatim>\<open>combineQuantities\<close>), the members that every object inherits from
    \<^verbatim>\<open>Object.prototype\<close> are part of the model; the rows of the weekly plan are
    read under the fixed meal types, days and time slots only, and are partial maps;
  \<^item> a \<^verbatim>\<open>Map\<close> is an association list, a \<^verbatim>\<open>Set\<close> a finite set;
  \<^item> a field that may be missing (\<^verbatim>\<open>undefined\<close>) is an \<open>option\<close>.
\<close>

subsection \<open>Numbers\<close>

datatype jsnum = NaN | PInf | NInf | Fin rat

text \<open>\<^verbatim>\<open>!x\<close> for a number: \<open>0\<close> and \<open>NaN\<close> are falsy.\<close>

definition falsy :: "jsnum \<Rightarrow> bool" where
  "falsy x = (x = NaN \<or> x = Fin 0)"

text \<open>\<^verbatim>\<open>x || d\<close> for numbers.\<close>

definition num_or :: "jsnum \<Rightarrow> jsnum \<Rightarrow> jsnum" where
  "num_or x d = (if falsy x then d else x)"

fun jsadd :: "jsnum \<Rightarrow> jsnum \<Rightarrow> jsnum" where
  "jsadd NaN y = NaN"
| "jsadd x NaN = NaN"
| "jsadd PInf NInf = NaN"
| "jsadd NInf PInf = NaN"
| "jsadd PInf y = PInf"
| "jsadd x PInf = PInf"
| "jsadd NInf y = NInf"
| "jsadd x NInf = NInf"
| "jsadd (Fin a) (Fin b) = Fin (a + b)"

fun jsneg :: "jsnum \<Rightarrow> jsnum" where
  "jsneg NaN = NaN"
| "jsneg PInf = NInf"
| "jsneg NInf = PInf"
| "jsneg (Fin a) = Fin (- a)"

fun jsdiv :: "jsnum \<Rightarrow> jsnum \<Rightarrow> jsnum" where
  "jsdiv NaN y = NaN"
| "jsdiv x NaN = NaN"
| "jsdiv (Fin a) (Fin b) =
     (if b = 0 then (if a = 0 then NaN else if 0 < a then PInf else NInf)
      else Fin (a / b))"
| "jsdiv (Fin a) y = Fin 0"
| "jsdiv PInf (Fin b) = (if b < 0 then NInf else PInf)"
| "jsdiv NInf (Fin b) = (if b < 0 then PInf else NInf)"
| "jsdiv x y = NaN"

text \<open>\<^verbatim>\<open>x > y\<close> on numbers: false as soon as one side is \<open>NaN\<close>.\<close>

fun jsgt :: "jsnum \<Rightarrow> jsnum \<Rightarrow> bool" where
  "jsgt NaN y = False"
| "jsgt x NaN = False"
| "jsgt PInf y = (y \<noteq> PInf)"
| "jsgt x PInf = False"
| "jsgt x NInf = (x \<noteq> NInf)"
| "jsgt NInf y = False"
| "jsgt (Fin a) (Fin b) = (b < a)"

subsection \<open>The data model\<close>

record source =
  src_store :: string
  src_url :: string
  src_note :: "string option"

record item =
  item_id :: string
  item_name :: string
  item_category :: string
  item_unit :: string
  item_sources :: "source list"

record bundle_item =
  bi_itemId :: string
  bi_quantity :: "jsnum option"

record bundle_data =
  bundle_id :: string
  bundle_name :: string
  bundle_category :: string
  bundle_items :: "bundle_item list"

record entity =
  ent_id :: string
  ent_name :: string
  ent_category :: string

text \<open>
  A quantity as stored in a shopping entry: the code accepts a number or a string
  (\<^verbatim>\<open>parseQuantity\<close> reads both), or nothing at all.
\<close>

datatype qty = QNum jsnum | QStr string | QUndef

record qrecord =
  num :: qty
  q_unit :: string
  q_from :: "string option"

record entry =
  itemId :: "string option"
  name :: string
  category :: string
  unit :: string
  url :: string
  store :: string
  quantities :: "qrecord list option"
  checked :: bool

text \<open>
  A reference stored in a weekly-plan slot: the \<^verbatim>\<open>{id, name}\<close> snapshot, or (legacy
  data, still read by the renderer) a bare bundle id.
\<close>

datatype planref = Ref string string | LegacyId string

text \<open>
  The value under a key of one weekly-plan row: \<^verbatim>\<open>null\<close>, one reference (the legacy
  format of the meal rows) or a list of references.
\<close>

datatype slotval = SNull | SScalar planref | SList "planref list"

type_synonym plan = "string \<rightharpoonup> (string \<rightharpoonup> slotval)"

text \<open>
  The names that a plain object inherits from \<^verbatim>\<open>Object.prototype\<close>: reading one
  of them from an object that has no own property of that name gives a function, which
  is truthy.  The accessor \<^verbatim>\<open>__proto__\<close> is inherited too: reading it gives the prototype
  of the object, and assigning an object to it replaces the prototype.
\<close>

definition objectProtoNames :: "string list" where
  "objectProtoNames =
     [''constructor'', ''hasOwnProperty'', ''isPrototypeOf'', ''propertyIsEnumerable'',
      ''toLocaleString'', ''toString'', ''valueOf'', ''__defineGetter__'',
      ''__defineSetter__'', ''__lookupGetter__'', ''__lookupSetter__'']"


text \<open>
  What a read of the item index yields when the value is truthy: an item, or some
  other truthy value (an inherited function, \<^verbatim>\<open>Object.prototype\<close> itself, or a
  property of an item that has become the prototype of the index).
\<close>

datatype propval = ItemVal item | OtherVal

text \<open>
  The state.  \<open>itemsById\<close> holds the own properties of the index object;
  \<open>itemsProto\<close> is \<open>None\<close> while the prototype of the index object is
  \<^verbatim>\<open>Object.prototype\<close>, and the item that has replaced it after an assignment
  \<^verbatim>\<open>state.itemsById['__proto__'] = item\<close>.
\<close>

record state =
  items :: "item list"
  itemsById :: "(string \<times> item) list"
  itemsProto :: "item option"
  bundles :: "bundle_data list"
  activities :: "entity list"
  chores :: "entity list"
  shopping :: "entry list"
  selectedBundles :: "string fset"
  selectedItems :: "(string \<times> string fset) list"
  expandedBundles :: "string fset"
  weeklyPlan :: "plan option"

subsection \<open>Strings\<close>

definition isDigit :: "char \<Rightarrow> bool" where
  "isDigit c = (48 \<le> (of_char c :: nat) \<and> (of_char c :: nat) \<le> 57)"

definition digitVal :: "char \<Rightarrow> nat" where
  "digitVal c = of_char c - 48"

text \<open>
  The white space of \<^verbatim>\<open>\s\<close>, \<^verbatim>\<open>trim\<close>, \<^verbatim>\<open>Number\<close> and \<^verbatim>\<open>parseFloat\<close> among the
  code units below 256: TAB, LF, VT, FF, CR, SP and NBSP.
\<close>

definition isSpace :: "char \<Rightarrow> bool" where
  "isSpace c = ((of_char c :: nat) \<in> {9, 10, 11, 12, 13, 32, 160})"

definition trimStart :: "string \<Rightarrow> string" where
  "trimStart s = dropWhile isSpace s"

definition trim :: "string \<Rightarrow> string" where
  "trim s = rev (dropWhile isSpace (rev (dropWhile isSpace s)))"

text \<open>
  \<^verbatim>\<open>toLowerCase\<close> on Latin-1: \<open>A\<close>..\<open>Z\<close> and the accented capitals 192..222
  (without the multiplication sign 215) move up by 32.
\<close>

definition lowerChar :: "char \<Rightarrow> char" where
  "lowerChar c =
     (let n = of_char c :: nat in
      if (65 \<le> n \<and> n \<le> 90) \<or> (192 \<le> n \<and> n \<le> 222 \<and> n \<noteq> 215)
      then char_of (n + 32) else c)"

definition toLowerCase :: "string \<Rightarrow> string" where
  "toLowerCase s = map lowerChar s"

text \<open>\<^verbatim>\<open>a || b\<close> on strings: the empty string is falsy.\<close>

definition str_or :: "string \<Rightarrow> string \<Rightarrow> string" where
  "str_or a b = (if a = [] then b else a)"

text \<open>\<^verbatim>\<open>str.split(c)\<close> for a one-character separator.\<close>

fun split :: "char \<Rightarrow> string \<Rightarrow> string list" where
  "split c [] = [[]]"
| "split c (x # xs) =
     (if x = c then [] # split c xs
      else (case split c xs of [] \<Rightarrow> [[x]] | y # ys \<Rightarrow> (x # y) # ys))"


subsection \<open>Numbers and strings\<close>

text \<open>The value of a string of decimal digits.\<close>

definition digitsVal :: "string \<Rightarrow> nat" where
  "digitsVal ds = foldl (\<lambda>n c. 10 * n + digitVal c) 0 ds"

text \<open>The decimal numeral of a natural number, as a template literal prints it.\<close>

definition digitChar :: "nat \<Rightarrow> char" where
  "digitChar d = char_of (48 + d)"

fun showNat :: "nat \<Rightarrow> string" where
  "showNat n = (if n < 10 then [digitChar n] else showNat (n div 10) @ [digitChar (n mod 10)])"

declare showNat.simps [simp del]

text \<open>
  The decimal literals of \<^verbatim>\<open>Number\<close> and \<^verbatim>\<open>parseFloat\<close>
  (\<^verbatim>\<open>StrUnsignedDecimalLiteral\<close>): digits with an optional fraction, or a fraction
  alone, and an optional exponent.  \<open>scanDecimal\<close> reads the longest prefix that is
  such a literal and returns its value and the rest of the string.
\<close>

definition mantissa :: "string \<Rightarrow> string \<Rightarrow> rat" where
  "mantissa ip fp = of_nat (digitsVal (ip @ fp)) / 10 ^ length fp"

definition splitSign :: "string \<Rightarrow> bool \<times> string" where
  "splitSign s =
     (case s of
        [] \<Rightarrow> (False, s)
      | c # r \<Rightarrow>
          if c = CHR ''-'' then (True, r)
          else if c = CHR ''+'' then (False, r)
          else (False, s))"

definition scanExponent :: "rat \<Rightarrow> string \<Rightarrow> rat \<times> string" where
  "scanExponent m r =
     (case r of
        [] \<Rightarrow> (m, r)
      | c # r1 \<Rightarrow>
          if c = CHR ''e'' \<or> c = CHR ''E'' then
            (let (neg, r2) = splitSign r1;
                 ds = takeWhile isDigit r2
             in if ds = [] then (m, r)
                else (if neg then m / 10 ^ digitsVal ds else m * 10 ^ digitsVal ds,
                      dropWhile isDigit r2))
          else (m, r))"

definition scanDecimal :: "string \<Rightarrow> (rat \<times> string) option" where
  "scanDecimal s =
     (let ip = takeWhile isDigit s;
          r1 = dropWhile isDigit s
      in if r1 \<noteq> [] \<and> hd r1 = CHR ''.'' then
           (let fp = takeWhile isDigit (tl r1);
                r3 = dropWhile isDigit (tl r1)
            in if ip = [] \<and> fp = [] then None
               else Some (scanExponent (mantissa ip fp) r3))
         else if ip = [] then None
         else Some (scanExponent (of_nat (digitsVal ip)) r1))"

text \<open>Hexadecimal, octal and binary integer literals (\<^verbatim>\<open>0x1F\<close>, \<^verbatim>\<open>0o17\<close>, \<^verbatim>\<open>0b101\<close>).\<close>

definition hexVal :: "char \<Rightarrow> nat option" where
  "hexVal c =
     (let n = of_char c :: nat in
      if isDigit c then Some (digitVal c)
      else if 97 \<le> n \<and> n \<le> 102 then Some (n - 87)
      else if 65 \<le> n \<and> n \<le> 70 then Some (n - 55)
      else None)"

definition radixOf :: "char \<Rightarrow> nat" where
  "radixOf x =
     (if x = CHR ''x'' \<or> x = CHR ''X'' then 16
      else if x = CHR ''o'' \<or> x = CHR ''O'' then 8
      else if x = CHR ''b'' \<or> x = CHR ''B'' then 2
      else 0)"

definition nonDecimal :: "string \<Rightarrow> nat option" where
  "nonDecimal s =
     (case s of
        z # x # ds \<Rightarrow>
          if z = CHR ''0'' \<and> radixOf x \<noteq> 0 \<and> ds \<noteq> [] \<and>
             list_all (\<lambda>c. case hexVal c of None \<Rightarrow> False | Some v \<Rightarrow> v < radixOf x) ds
          then Some (foldl (\<lambda>n c. radixOf x * n + the (hexVal c)) 0 ds)
          else None
      | _ \<Rightarrow> None)"

text \<open>
  \<^verbatim>\<open>Number(str)\<close>: white space is trimmed on both sides; the empty string is \<open>0\<close>;
  the whole of what remains must be a numeric literal, else the result is \<open>NaN\<close>.
\<close>

definition Number :: "string \<Rightarrow> jsnum" where
  "Number s =
     (let t = trim s in
      if t = [] then Fin 0
      else case nonDecimal t of
        Some n \<Rightarrow> Fin (of_nat n)
      | None \<Rightarrow>
          (let (neg, u) = splitSign t in
           if u = ''Infinity'' then (if neg then NInf else PInf)
           else case scanDecimal u of
             None \<Rightarrow> NaN
           | Some (v, r) \<Rightarrow> if r = [] then Fin (if neg then - v else v) else NaN))"

text \<open>
  \<^verbatim>\<open>parseFloat(str)\<close>: leading white space is skipped and the longest prefix that is
  a decimal literal is read; \<open>NaN\<close> when there is none.
\<close>

definition parseFloat :: "string \<Rightarrow> jsnum" where
  "parseFloat s =
     (let (neg, u) = splitSign (trimStart s) in
      if take 8 u = ''Infinity'' then (if neg then NInf else PInf)
      else case scanDecimal u of
        None \<Rightarrow> NaN
      | Some (v, r) \<Rightarrow> Fin (if neg then - v else v))"




subsection \<open>Quantities (\<^verbatim>\<open>utils.js\<close>)\<close>

text \<open>
  The fraction branch of \<^verbatim>\<open>parseQuantity\<close>: taken when the string has a slash; the
  destructuring \<^verbatim>\<open>[num, denom] = str.split('/').map(Number)\<close> reads the first two
  pieces and drops any others.
\<close>

definition fractionPart :: "string \<Rightarrow> jsnum option" where
  "fractionPart str =
     (if CHR ''/'' \<in> set str then
        (case split (CHR ''/'') str of
           n # d # rest \<Rightarrow>
             (let numer = Number n; denom = Number d in
              if numer \<noteq> NaN \<and> denom \<noteq> NaN \<and> denom \<noteq> Fin 0
              then Some (jsdiv numer denom) else None)
         | _ \<Rightarrow> None)
      else None)"

text \<open>
  The regular expression \<^verbatim>\<open>/^(\d+)\s+(\d+)\/(\d+)$/\<close>: its three groups, when the
  whole string matches.
\<close>

definition mixedMatch :: "string \<Rightarrow> (string \<times> string \<times> string) option" where
  "mixedMatch s =
     (let w = takeWhile isDigit s;
          r1 = dropWhile isDigit s;
          sp = takeWhile isSpace r1;
          r2 = dropWhile isSpace r1;
          n = takeWhile isDigit r2;
          r3 = dropWhile isDigit r2
      in if w \<noteq> [] \<and> sp \<noteq> [] \<and> n \<noteq> [] \<and> r3 \<noteq> [] \<and> hd r3 = CHR ''/'' \<and>
            tl r3 \<noteq> [] \<and> list_all isDigit (tl r3)
         then Some (w, n, tl r3) else None)"

definition mixedPart :: "string \<Rightarrow> jsnum option" where
  "mixedPart str =
     (case mixedMatch str of
        None \<Rightarrow> None
      | Some (w, n, d) \<Rightarrow>
          (let whole = Number w; numer = Number n; denom = Number d in
           if denom \<noteq> Fin 0 then Some (jsadd whole (jsdiv numer denom)) else None))"

definition parseQuantity :: "qty \<Rightarrow> jsnum" where
  "parseQuantity qty =
     (case qty of
        QNum n \<Rightarrow> n
      | QUndef \<Rightarrow> Fin 1
      | QStr q \<Rightarrow>
          if q = [] then Fin 1
          else
            (let str = trim q in
             case fractionPart str of
               Some r \<Rightarrow> r
             | None \<Rightarrow>
                 (case mixedPart str of
                    Some r \<Rightarrow> r
                  | None \<Rightarrow>
                      (let parsed = parseFloat str in
                       if parsed = NaN then Fin 1 else parsed))))"








text \<open>
  \<^verbatim>\<open>slugify\<close>: lower case; every run of characters outside \<^verbatim>\<open>a-z0-9\<close> becomes one
  hyphen (\<open>hyphenate\<close>, whose flag says that the run has begun); one hyphen is
  dropped at the start and one at the end.
\<close>

definition isSlugChar :: "char \<Rightarrow> bool" where
  "isSlugChar c = (isDigit c \<or> (97 \<le> (of_char c :: nat) \<and> (of_char c :: nat) \<le> 122))"

fun hyphenate :: "bool \<Rightarrow> string \<Rightarrow> string" where
  "hyphenate inRun [] = []"
| "hyphenate inRun (c # cs) =
     (if isSlugChar c then c # hyphenate False cs
      else if inRun then hyphenate True cs
      else CHR ''-'' # hyphenate True cs)"

definition stripHyphens :: "string \<Rightarrow> string" where
  "stripHyphens s =
     (let t = (if s \<noteq> [] \<and> hd s = CHR ''-'' then tl s else s)
      in if t \<noteq> [] \<and> last t = CHR ''-'' then butlast t else t)"

definition slugify :: "string \<Rightarrow> string" where
  "slugify nm = stripHyphens (hyphenate False (toLowerCase nm))"

subsection \<open>Array helpers\<close>

text \<open>\<^verbatim>\<open>xs.findIndex(p)\<close>, with \<open>None\<close> for \<open>-1\<close>.\<close>

fun findIndex :: "('a \<Rightarrow> bool) \<Rightarrow> 'a list \<Rightarrow> nat option" where
  "findIndex p [] = None"
| "findIndex p (x # xs) =
     (if p x then Some 0 else map_option Suc (findIndex p xs))"

text \<open>\<^verbatim>\<open>xs.splice(i, 1)\<close>: the array without its element at \<open>i\<close>.\<close>

definition splice1 :: "nat \<Rightarrow> 'a list \<Rightarrow> 'a list" where
  "splice1 i xs = take i xs @ drop (Suc i) xs"

subsection \<open>Store lookups (\<^verbatim>\<open>store.js\<close>)\<close>

text \<open>
  \<^verbatim>\<open>state.itemsById[key]\<close>, up to truthiness (\<open>None\<close> stands for \<^verbatim>\<open>undefined\<close> and
  for a falsy value, the empty string).  An own property is found first.  Otherwise
  the read goes up the prototype chain: \<^verbatim>\<open>__proto__\<close> gives the prototype itself; an
  item that has replaced the prototype contributes its five properties (the four
  strings are truthy unless empty, the array of sources always is) and is followed by
  \<^verbatim>\<open>Object.prototype\<close>, whose members are functions.
\<close>

definition truthyText :: "string \<Rightarrow> propval option" where
  "truthyText t = (if t = [] then None else Some OtherVal)"

definition inheritedProp :: "item option \<Rightarrow> string \<Rightarrow> propval option" where
  "inheritedProp proto k =
     (case proto of
        None \<Rightarrow>
          if k = ''__proto__'' \<or> k \<in> set objectProtoNames then Some OtherVal else None
      | Some p \<Rightarrow>
          if k = ''__proto__'' then Some (ItemVal p)
          else if k = ''id'' then truthyText (item_id p)
          else if k = ''name'' then truthyText (item_name p)
          else if k = ''category'' then truthyText (item_category p)
          else if k = ''unit'' then truthyText (item_unit p)
          else if k = ''sources'' then Some OtherVal
          else if k \<in> set objectProtoNames then Some OtherVal
          else None)"

definition lookupIndex :: "state \<Rightarrow> string \<Rightarrow> propval option" where
  "lookupIndex s k =
     (case map_of (itemsById s) k of
        Some it \<Rightarrow> Some (ItemVal it)
      | None \<Rightarrow> inheritedProp (itemsProto s) k)"

text \<open>
  \<^verbatim>\<open>state.itemsById[key] = item\<close>: an own property is created or overwritten in
  place; the key \<^verbatim>\<open>__proto__\<close> (when the object has no own property of that name)
  runs the inherited setter instead, which makes the item the prototype.
\<close>

definition setIndex :: "string \<Rightarrow> item \<Rightarrow> state \<Rightarrow> state" where
  "setIndex k it s =
     (if k = ''__proto__'' \<and> map_of (itemsById s) k = None
      then s\<lparr>itemsProto := Some it\<rparr>
      else s\<lparr>itemsById := AList.update k it (itemsById s)\<rparr>)"

text \<open>\<^verbatim>\<open>getItem\<close>: \<^verbatim>\<open>state.itemsById[itemId] || null\<close>.\<close>

definition getItem :: "state \<Rightarrow> string \<Rightarrow> propval option" where
  "getItem s i = lookupIndex s i"

subsection \<open>Bundles (\<^verbatim>\<open>bundles.js\<close>)\<close>

definition deleteBundle :: "string \<Rightarrow> state \<Rightarrow> bool \<times> state" where
  "deleteBundle bundleId s =
     (case findIndex (\<lambda>b. bundle_id b = bundleId) (bundles s) of
        None \<Rightarrow> (False, s)
      | Some index \<Rightarrow>
          (True,
           s\<lparr>bundles := splice1 index (bundles s),
             selectedBundles := selectedBundles s |-| {|bundleId|},
             selectedItems := AList.delete bundleId (selectedItems s),
             expandedBundles := expandedBundles s |-| {|bundleId|}\<rparr>))"

text \<open>
  \<^verbatim>\<open>getSelectedItemCount\<close>: the \<^verbatim>\<open>forEach\<close> over the selection map adds up the
  sizes of the sets.
\<close>

definition getSelectedItemCount :: "state \<Rightarrow> nat" where
  "getSelectedItemCount s =
     foldl (\<lambda>count (bundleId, itemSet). count + fcard itemSet) 0 (selectedItems s)"

record resolved =
  r_item :: propval
  r_quantity :: jsnum
  r_itemId :: string

text \<open>
  \<^verbatim>\<open>getResolvedBundleItems\<close>: the \<^verbatim>\<open>map\<close> builds a triple for every reference, with
  \<^verbatim>\<open>item\<close> possibly \<^verbatim>\<open>null\<close>; the \<^verbatim>\<open>filter\<close> then keeps the triples whose item is
  not \<^verbatim>\<open>null\<close>.
\<close>

definition resolveRef :: "state \<Rightarrow> bundle_item \<Rightarrow> propval option \<times> jsnum \<times> string" where
  "resolveRef s bi =
     (getItem s (bi_itemId bi),
      (case bi_quantity bi of None \<Rightarrow> Fin 1 | Some q \<Rightarrow> num_or q (Fin 1)),
      bi_itemId bi)"

definition getResolvedBundleItems :: "state \<Rightarrow> string \<Rightarrow> resolved list" where
  "getResolvedBundleItems s bundleId =
     (case List.find (\<lambda>b. bundle_id b = bundleId) (bundles s) of
        None \<Rightarrow> []
      | Some b \<Rightarrow>
          map (\<lambda>(it, q, i). \<lparr>r_item = the it, r_quantity = q, r_itemId = i\<rparr>)
            (filter (\<lambda>(it, q, i). it \<noteq> None) (map (resolveRef s) (bundle_items b))))"

subsection \<open>Items (\<^verbatim>\<open>items.js\<close>, \<^verbatim>\<open>store.js\<close>)\<close>

text \<open>The argument of \<^verbatim>\<open>addItem\<close>: every field but the name may be missing.\<close>

record item_data =
  d_id :: "string option"
  d_name :: string
  d_category :: "string option"
  d_unit :: "string option"
  d_sources :: "source list option"

text \<open>\<^verbatim>\<open>x || d\<close> for a string that may be missing.\<close>

definition opt_or :: "string option \<Rightarrow> string \<Rightarrow> string" where
  "opt_or x d = (case x of None \<Rightarrow> d | Some v \<Rightarrow> str_or v d)"

text \<open>
  The loop of \<^verbatim>\<open>addItem\<close>:
  \<^verbatim>\<open>while (state.itemsById[finalId]) { finalId = `${id}-${counter}`; counter++; }\<close>.
  It ends because only finitely many keys of the index read as truthy (its own keys
  and the inherited names) and the candidates are pairwise different (the
  termination proof is given with the lemmas on \<open>showNat\<close>).
\<close>

function freeId :: "state \<Rightarrow> string \<Rightarrow> string \<Rightarrow> nat \<Rightarrow> string" where
  "freeId s base finalId counter =
     (if lookupIndex s finalId \<noteq> None
      then freeId s base (base @ ''-'' @ showNat counter) (Suc counter)
      else finalId)"
  by pat_completeness auto

definition addItem :: "item_data \<Rightarrow> state \<Rightarrow> item \<times> state" where
  "addItem itemData s =
     (let base = (case d_id itemData of
                    None \<Rightarrow> slugify (d_name itemData)
                  | Some i \<Rightarrow> if i = [] then slugify (d_name itemData) else i);
          finalId = freeId s base base 1;
          it = \<lparr>item_id = finalId,
                item_name = d_name itemData,
                item_category = opt_or (d_category itemData) ''Other|Other'',
                item_unit = opt_or (d_unit itemData) ''item'',
                item_sources = (case d_sources itemData of None \<Rightarrow> [] | Some ss \<Rightarrow> ss)\<rparr>
      in (it, setIndex finalId it (s\<lparr>items := items s @ [it]\<rparr>)))"

text \<open>\<^verbatim>\<open>getItemByName\<close>: the first item whose lower-cased name is the lower-cased argument.\<close>

definition getItemByName :: "state \<Rightarrow> string \<Rightarrow> item option" where
  "getItemByName s nm =
     List.find (\<lambda>i. toLowerCase (item_name i) = toLowerCase nm) (items s)"

record item_defaults =
  def_category :: "string option"
  def_unit :: "string option"
  def_sources :: "source list option"

definition findOrCreateItem :: "string \<Rightarrow> item_defaults \<Rightarrow> state \<Rightarrow> item \<times> state" where
  "findOrCreateItem nm defaults s =
     (case List.find (\<lambda>i. toLowerCase (item_name i) = toLowerCase nm) (items s) of
        Some it \<Rightarrow> (it, s)
      | None \<Rightarrow>
          addItem \<lparr>d_id = None,
                   d_name = nm,
                   d_category = Some (opt_or (def_category defaults) ''Other|Other''),
                   d_unit = Some (opt_or (def_unit defaults) ''item''),
                   d_sources = Some (case def_sources defaults of None \<Rightarrow> [] | Some ss \<Rightarrow> ss)\<rparr> s)"

text \<open>\<^verbatim>\<open>rebuildItemsIndex\<close>: an empty object, then one assignment per item in list order.\<close>

definition rebuildItemsIndex :: "state \<Rightarrow> state" where
  "rebuildItemsIndex s =
     foldl (\<lambda>t it. setIndex (item_id it) it t) (s\<lparr>itemsById := [], itemsProto := None\<rparr>)
       (items s)"

text \<open>
  \<^verbatim>\<open>getItemUrl(item)\<close> with the default preferred store: the URL of the first
  \<^verbatim>\<open>Tesco\<close> source if it has one, else the first non-empty URL, else the empty string.
\<close>

definition getItemUrl :: "item \<Rightarrow> string" where
  "getItemUrl it =
     (case List.find (\<lambda>src. src_store src = ''Tesco'') (item_sources it) of
        Some preferred \<Rightarrow>
          if src_url preferred \<noteq> [] then src_url preferred
          else (case List.find (\<lambda>src. src_url src \<noteq> []) (item_sources it) of
                  None \<Rightarrow> [] | Some first \<Rightarrow> src_url first)
      | None \<Rightarrow>
          (case List.find (\<lambda>src. src_url src \<noteq> []) (item_sources it) of
             None \<Rightarrow> [] | Some first \<Rightarrow> src_url first))"

subsection \<open>The shopping list (\<^verbatim>\<open>shopping.js\<close>)\<close>

text \<open>The \<^verbatim>\<open>options\<close> of \<^verbatim>\<open>addToShoppingList\<close>, each with its destructuring default.\<close>

record add_options =
  opt_quantity :: "qty option"
  opt_from :: "string option"
  opt_unit :: "string option"

text \<open>
  The quantity record that both branches of \<^verbatim>\<open>addToShoppingList\<close> build:
  \<^verbatim>\<open>{num: quantity, unit: unit || item.unit || '', from}\<close>.
\<close>

definition newRecord :: "item \<Rightarrow> add_options \<Rightarrow> qrecord" where
  "newRecord it options =
     \<lparr>num = (case opt_quantity options of None \<Rightarrow> QNum (Fin 1) | Some q \<Rightarrow> q),
      q_unit = str_or (opt_or (opt_unit options) (item_unit it)) [],
      q_from = Some (case opt_from options of None \<Rightarrow> [] | Some f \<Rightarrow> f)\<rparr>"

text \<open>
  The merge branch, shared by both add operations: \<^verbatim>\<open>existing.quantities\<close> is created
  when missing, the record is pushed and the entry is unchecked.
\<close>

definition mergeInto :: "entry \<Rightarrow> qrecord \<Rightarrow> entry" where
  "mergeInto existing r =
     existing\<lparr>quantities := Some ((case quantities existing of None \<Rightarrow> [] | Some qs \<Rightarrow> qs) @ [r]),
              checked := False\<rparr>"

text \<open>The test of \<^verbatim>\<open>find\<close> in \<^verbatim>\<open>addToShoppingList\<close>: \<^verbatim>\<open>s.itemId === item.id || s.name === item.name\<close>.\<close>

definition matchesItem :: "item \<Rightarrow> entry \<Rightarrow> bool" where
  "matchesItem it e = (itemId e = Some (item_id it) \<or> name e = item_name it)"

text \<open>The entry that \<^verbatim>\<open>addToShoppingList\<close> pushes when nothing matches.\<close>

definition freshEntry :: "item \<Rightarrow> add_options \<Rightarrow> entry" where
  "freshEntry it options =
     \<lparr>itemId = Some (item_id it),
      name = item_name it,
      category = item_category it,
      unit = str_or (opt_or (opt_unit options) (item_unit it)) ''item'',
      url = getItemUrl it,
      store = (case item_sources it of
                 [] \<Rightarrow> ''Unknown''
               | src # rest \<Rightarrow> str_or (src_store src) ''Unknown''),
      quantities = Some [newRecord it options],
      checked = False\<rparr>"

definition addToShoppingList :: "item \<Rightarrow> add_options \<Rightarrow> state \<Rightarrow> state" where
  "addToShoppingList it options s =
     (case findIndex (matchesItem it) (shopping s) of
        Some i \<Rightarrow>
          s\<lparr>shopping := (shopping s)[i := mergeInto (shopping s ! i) (newRecord it options)]\<rparr>
      | None \<Rightarrow> s\<lparr>shopping := shopping s @ [freshEntry it options]\<rparr>)"

text \<open>The argument of \<^verbatim>\<open>addManualToShopping\<close>, each field with its destructuring default.\<close>

record manual_data =
  m_name :: string
  m_quantity :: "qty option"
  m_unit :: "string option"
  m_category :: "string option"
  m_store :: "string option"
  m_url :: "string option"

definition manualRecord :: "manual_data \<Rightarrow> qrecord" where
  "manualRecord itemData =
     \<lparr>num = (case m_quantity itemData of None \<Rightarrow> QNum (Fin 1) | Some q \<Rightarrow> q),
      q_unit = (case m_unit itemData of None \<Rightarrow> [] | Some u \<Rightarrow> u),
      q_from = Some ''Manual''\<rparr>"

text \<open>
  The test of \<^verbatim>\<open>find\<close> in \<^verbatim>\<open>addManualToShopping\<close>:
  \<^verbatim>\<open>s.name.toLowerCase() === name.toLowerCase()\<close>.
\<close>

definition matchesName :: "string \<Rightarrow> entry \<Rightarrow> bool" where
  "matchesName nm e = (toLowerCase (name e) = toLowerCase nm)"

text \<open>The entry that \<^verbatim>\<open>addManualToShopping\<close> pushes when nothing matches: it has no \<^verbatim>\<open>itemId\<close>.\<close>

definition manualEntry :: "manual_data \<Rightarrow> entry" where
  "manualEntry itemData =
     \<lparr>itemId = None,
      name = m_name itemData,
      category = (case m_category itemData of None \<Rightarrow> ''Other|Other'' | Some c \<Rightarrow> c),
      unit = (case m_unit itemData of None \<Rightarrow> [] | Some u \<Rightarrow> u),
      url = (case m_url itemData of None \<Rightarrow> [] | Some u \<Rightarrow> u),
      store = (case m_store itemData of None \<Rightarrow> [] | Some st \<Rightarrow> st),
      quantities = Some [manualRecord itemData],
      checked = False\<rparr>"

definition addManualToShopping :: "manual_data \<Rightarrow> state \<Rightarrow> state" where
  "addManualToShopping itemData s =
     (case findIndex (matchesName (m_name itemData)) (shopping s) of
        Some i \<Rightarrow>
          s\<lparr>shopping := (shopping s)[i := mergeInto (shopping s ! i) (manualRecord itemData)]\<rparr>
      | None \<Rightarrow> s\<lparr>shopping := shopping s @ [manualEntry itemData]\<rparr>)"

text \<open>
  \<^verbatim>\<open>state.shopping[index]\<close> for a number \<open>index\<close>: \<^verbatim>\<open>undefined\<close> outside the array.
\<close>

definition at_index :: "'a list \<Rightarrow> int \<Rightarrow> 'a option" where
  "at_index xs index =
     (if 0 \<le> index \<and> index < int (length xs) then Some (xs ! nat index) else None)"

definition toggleShoppingChecked :: "int \<Rightarrow> state \<Rightarrow> state" where
  "toggleShoppingChecked index s =
     (if 0 \<le> index \<and> index < int (length (shopping s))
      then s\<lparr>shopping := (shopping s)[nat index :=
                (shopping s ! nat index)\<lparr>checked := \<not> checked (shopping s ! nat index)\<rparr>]\<rparr>
      else s)"

text \<open>
  \<^verbatim>\<open>(num || 1) + 1\<close>: a missing, zero or \<open>NaN\<close> quantity counts as \<open>1\<close>; on a
  non-empty string \<^verbatim>\<open>+\<close> is concatenation.
\<close>

definition incrementNum :: "qty \<Rightarrow> qty" where
  "incrementNum q =
     (case q of
        QNum n \<Rightarrow> QNum (jsadd (num_or n (Fin 1)) (Fin 1))
      | QUndef \<Rightarrow> QNum (Fin 2)
      | QStr str \<Rightarrow> if str = [] then QNum (Fin 2) else QStr (str @ ''1''))"

definition incrementShoppingQty :: "int \<Rightarrow> state \<Rightarrow> state" where
  "incrementShoppingQty index s =
     (case at_index (shopping s) index of
        None \<Rightarrow> s
      | Some it \<Rightarrow>
          (case quantities it of
             Some (q # qs) \<Rightarrow>
               s\<lparr>shopping := (shopping s)[nat index :=
                    it\<lparr>quantities := Some (q\<lparr>num := incrementNum (num q)\<rparr> # qs)\<rparr>]\<rparr>
           | _ \<Rightarrow>
               s\<lparr>shopping := (shopping s)[nat index :=
                    it\<lparr>quantities := Some [\<lparr>num = QNum (Fin 2),
                                             q_unit = str_or (unit it) [],
                                             q_from = None\<rparr>]\<rparr>]\<rparr>))"

text \<open>
  \<^verbatim>\<open>if (qty.num > 1) qty.num--\<close>: the comparison and the decrement read a string
  through \<^verbatim>\<open>Number\<close>; a missing quantity compares as \<open>NaN\<close>.
\<close>

definition toNumber :: "qty \<Rightarrow> jsnum" where
  "toNumber q = (case q of QNum n \<Rightarrow> n | QStr str \<Rightarrow> Number str | QUndef \<Rightarrow> NaN)"

definition decrementNum :: "qty \<Rightarrow> qty" where
  "decrementNum q =
     (if jsgt (toNumber q) (Fin 1) then QNum (jsadd (toNumber q) (Fin (- 1))) else q)"

definition decrementShoppingQty :: "int \<Rightarrow> state \<Rightarrow> state" where
  "decrementShoppingQty index s =
     (case at_index (shopping s) index of
        None \<Rightarrow> s
      | Some it \<Rightarrow>
          (case quantities it of
             Some (q # qs) \<Rightarrow>
               s\<lparr>shopping := (shopping s)[nat index :=
                    it\<lparr>quantities := Some (q\<lparr>num := decrementNum (num q)\<rparr> # qs)\<rparr>]\<rparr>
           | _ \<Rightarrow> s))"

subsection \<open>The weekly plan (\<^verbatim>\<open>weekly.js\<close>)\<close>

text \<open>\<^verbatim>\<open>b.id\<close> of a slot element: a bare id string has no such property.\<close>

definition ref_id :: "planref \<Rightarrow> string option" where
  "ref_id r = (case r of Ref i n \<Rightarrow> Some i | LegacyId str \<Rightarrow> None)"



text \<open>The duplicate check and the \<^verbatim>\<open>push\<close> that both slot operations end with.\<close>

definition pushUnique :: "string \<Rightarrow> string \<Rightarrow> planref list \<Rightarrow> planref list" where
  "pushUnique i n l =
     (if List.find (\<lambda>b. ref_id b = Some i) l = None then l @ [Ref i n] else l)"

definition planRow :: "state \<Rightarrow> string \<Rightarrow> (string \<rightharpoonup> slotval)" where
  "planRow s type =
     (case weeklyPlan s of
        None \<Rightarrow> Map.empty
      | Some wp \<Rightarrow> (case wp type of None \<Rightarrow> Map.empty | Some row \<Rightarrow> row))"

definition setSlot :: "state \<Rightarrow> string \<Rightarrow> string \<Rightarrow> slotval \<Rightarrow> state" where
  "setSlot s type key v =
     s\<lparr>weeklyPlan :=
         Some ((case weeklyPlan s of None \<Rightarrow> Map.empty | Some wp \<Rightarrow> wp)
                 (type \<mapsto> (planRow s type)(key \<mapsto> v)))\<rparr>"



subsection \<open>Auxiliary notions of the statements\<close>

text \<open>The size of the selection set stored for a bundle id (\<open>0\<close> when there is none).\<close>

definition selSize :: "(string \<times> string fset) list \<Rightarrow> string \<Rightarrow> nat" where
  "selSize al k = (case map_of al k of None \<Rightarrow> 0 | Some v \<Rightarrow> fcard v)"

text \<open>
  ``Exactly one entry for the item, with two quantity records, unchecked'': \<open>P\<close> says
  which entries are entries for the item.
\<close>

definition oneEntryTwoRecords :: "(entry \<Rightarrow> bool) \<Rightarrow> entry list \<Rightarrow> bool" where
  "oneEntryTwoRecords P es =
     (case filter P es of
        [e] \<Rightarrow> (case quantities e of None \<Rightarrow> False | Some qs \<Rightarrow> length qs = 2) \<and> \<not> checked e
      | _ \<Rightarrow> False)"


definition refersTo :: "planref \<Rightarrow> string" where
  "refersTo r = (case r of Ref i n \<Rightarrow> i | LegacyId i \<Rightarrow> i)"

definition idCount :: "string \<Rightarrow> planref list \<Rightarrow> nat" where
  "idCount i l = length (filter (\<lambda>r. refersTo r = i) l)"




text \<open>
  The index is consistent with the items collection: reading it under the id of an
  item gives that item, it has no own key that is not the id of an item, and its
  prototype has been replaced only if an item has the id \<^verbatim>\<open>__proto__\<close>.  The invariant
  of the store adds that the ids of the items are pairwise distinct.
\<close>

definition indexConsistent :: "state \<Rightarrow> bool" where
  "indexConsistent s =
     (list_all (\<lambda>i. lookupIndex s (item_id i) = Some (ItemVal i)) (items s) \<and>
      list_all (\<lambda>(k, v). k \<in> set (map item_id (items s))) (itemsById s) \<and>
      (itemsProto s \<noteq> None \<longrightarrow> ''__proto__'' \<in> set (map item_id (items s))))"

text \<open>The keys under which a read of the index can be truthy.\<close>

definition truthyKeys :: "state \<Rightarrow> string set" where
  "truthyKeys s =
     fst ` set (itemsById s) \<union>
     set ([''__proto__'', ''id'', ''name'', ''category'', ''unit'', ''sources''] @ objectProtoNames)"

definition storeInvariant :: "state \<Rightarrow> bool" where
  "storeInvariant s = (distinct (map item_id (items s)) \<and> indexConsistent s)"

text \<open>The id that \<^verbatim>\<open>addItem\<close> starts from: \<^verbatim>\<open>itemData.id || slugify(itemData.name)\<close>.\<close>

definition baseId :: "item_data \<Rightarrow> string" where
  "baseId itemData =
     (case d_id itemData of
        None \<Rightarrow> slugify (d_name itemData)
      | Some i \<Rightarrow> if i = [] then slugify (d_name itemData) else i)"

text \<open>An item has the given name, compared as \<^verbatim>\<open>findOrCreateItem\<close> compares names.\<close>

definition sameName :: "string \<Rightarrow> item \<Rightarrow> bool" where
  "sameName nm i = (toLowerCase (item_name i) = toLowerCase nm)"

text \<open>
  \<open>parseQuantity\<close> on a string as the specification words it.  A pure fraction is a
  string \<open>a/b\<close>, that is, one with exactly two pieces around one slash, both numeric and
  the second not zero; then a mixed fraction; then the floating-point parse; then \<open>1\<close>.
\<close>

definition pureFraction :: "string \<Rightarrow> jsnum option" where
  "pureFraction str =
     (case split (CHR ''/'') str of
        [a, b] \<Rightarrow>
          (let numer = Number a; denom = Number b in
           if numer \<noteq> NaN \<and> denom \<noteq> NaN \<and> denom \<noteq> Fin 0
           then Some (jsdiv numer denom) else None)
      | _ \<Rightarrow> None)"

definition parseQuantity_spec :: "string \<Rightarrow> jsnum" where
  "parseQuantity_spec q =
     (if q = [] then Fin 1
      else
        (let str = trim q in
         case pureFraction str of
           Some r \<Rightarrow> r
         | None \<Rightarrow>
             (case mixedPart str of
                Some r \<Rightarrow> r
              | None \<Rightarrow>
                  (let parsed = parseFloat str in
                   if parsed = NaN then Fin 1 else parsed))))"

text \<open>A non-empty string of decimal digits, and a non-empty string of white space.\<close>

definition digits :: "string \<Rightarrow> bool" where
  "digits ds = (ds \<noteq> [] \<and> list_all isDigit ds)"

definition spaces :: "string \<Rightarrow> bool" where
  "spaces sp = (sp \<noteq> [] \<and> list_all isSpace sp)"












subsection \<open>Example data\<close>

definition ex_milk :: item where
  "ex_milk = \<lparr>item_id = ''milk'', item_name = ''Milk'', item_category = ''Fridge|Dairy'',
              item_unit = ''pint'', item_sources = []\<rparr>"

definition ex_b1 :: bundle_data where
  "ex_b1 = \<lparr>bundle_id = ''b1'', bundle_name = ''Breakfast Bundle'',
            bundle_category = ''breakfast'',
            bundle_items = [\<lparr>bi_itemId = ''milk'', bi_quantity = Some (Fin 2)\<rparr>,
                            \<lparr>bi_itemId = ''gone'', bi_quantity = Some (Fin 1)\<rparr>]\<rparr>"

definition ex_b2 :: bundle_data where
  "ex_b2 = \<lparr>bundle_id = ''b2'', bundle_name = ''Pasta'', bundle_category = ''dinner'',
            bundle_items = [\<lparr>bi_itemId = ''pasta'', bi_quantity = None\<rparr>,
                            \<lparr>bi_itemId = ''sauce'', bi_quantity = Some (Fin 0)\<rparr>]\<rparr>"

definition ex_state :: state where
  "ex_state = \<lparr>items = [ex_milk],
               itemsById = [(''milk'', ex_milk)],
               itemsProto = None,
               bundles = [ex_b1, ex_b2],
               activities = [\<lparr>ent_id = ''gym'', ent_name = ''Gym'', ent_category = ''sport''\<rparr>],
               chores = [\<lparr>ent_id = ''bins'', ent_name = ''Bins'', ent_category = ''weekly''\<rparr>],
               shopping = [],
               selectedBundles = {||},
               selectedItems = [(''b1'', {|''milk''|}), (''b2'', {|''pasta'', ''sauce''|})],
               expandedBundles = {|''b1''|},
               weeklyPlan = None\<rparr>"

definition ex_opts :: add_options where
  "ex_opts = \<lparr>opt_quantity = Some (QNum (Fin 2)), opt_from = Some ''Breakfast Bundle'',
               opt_unit = None\<rparr>"

definition ex_milk_entry :: entry where
  "ex_milk_entry = \<lparr>itemId = Some ''milk'', name = ''Milk'', category = ''Fridge|Dairy'',
                     unit = ''pint'', url = [], store = ''Unknown'',
                     quantities = Some [\<lparr>num = QNum (Fin 1), q_unit = ''pint'',
                                         q_from = Some ''Pasta''\<rparr>],
                     checked = True\<rparr>"

definition ex_manual :: manual_data where
  "ex_manual = \<lparr>m_name = ''milk'', m_quantity = None, m_unit = None, m_category = None,
                 m_store = None, m_url = None\<rparr>"

definition ex_manual_upper :: manual_data where
  "ex_manual_upper = \<lparr>m_name = ''MILK'', m_quantity = Some (QNum (Fin 3)), m_unit = Some ''l'',
                       m_category = None, m_store = None, m_url = None\<rparr>"

definition ex_fraction_entry :: entry where
  "ex_fraction_entry = \<lparr>itemId = Some ''milk'', name = ''Milk'', category = ''Fridge|Dairy'',
                         unit = ''pint'', url = [], store = ''Unknown'',
                         quantities = Some [\<lparr>num = QNum (Fin (3 / 2)), q_unit = ''pint'',
                                             q_from = Some ''Pasta''\<rparr>,
                                           \<lparr>num = QNum (Fin 4), q_unit = ''pint'',
                                             q_from = Some ''Manual''\<rparr>],
                         checked = False\<rparr>"



definition ex_empty :: state where
  "ex_empty = ex_state\<lparr>items := [], itemsById := []\<rparr>"

definition ex_b3 :: bundle_data where
  "ex_b3 = \<lparr>bundle_id = ''b3'', bundle_name = ''Builder Breakfast'',
            bundle_category = ''breakfast'',
            bundle_items = [\<lparr>bi_itemId = ''milk'', bi_quantity = Some (Fin 2)\<rparr>,
                            \<lparr>bi_itemId = ''constructor'', bi_quantity = None\<rparr>]\<rparr>"

definition ex_dangling :: state where
  "ex_dangling = ex_state\<lparr>bundles := [ex_b3]\<rparr>"

definition ex_milk_data :: item_data where
  "ex_milk_data = \<lparr>d_id = None, d_name = ''Milk'', d_category = None, d_unit = Some ''pint'',
                    d_sources = None\<rparr>"

definition ex_ctor_data :: item_data where
  "ex_ctor_data = \<lparr>d_id = None, d_name = ''Constructor'', d_category = None, d_unit = None,
                    d_sources = None\<rparr>"

definition ex_defaults :: item_defaults where
  "ex_defaults = \<lparr>def_category = None, def_unit = None, def_sources = None\<rparr>"






section \<open>Properties\<close>

subsection \<open>Arrays\<close>

lemma findIndex_Some:
  "findIndex p xs = Some i \<Longrightarrow> i < length xs \<and> p (xs ! i) \<and> (\<forall>j<i. \<not> p (xs ! j))"
proof (induction xs arbitrary: i)
  case Nil
  then show ?case by simp
next
  case (Cons x xs)
  show ?case
  proof (cases "p x")
    case True
    with Cons.prems show ?thesis by simp
  next
    case False
    with Cons.prems obtain k where k: "findIndex p xs = Some k" "i = Suc k" by auto
    from Cons.IH [OF k(1)] False k(2) show ?thesis by (auto simp: less_Suc_eq_0_disj)
  qed
qed

lemma findIndex_None: "findIndex p xs = None \<longleftrightarrow> (\<forall>x\<in>set xs. \<not> p x)"
  by (induction xs) auto

lemma findIndex_find:
  "List.find p xs = (case findIndex p xs of None \<Rightarrow> None | Some i \<Rightarrow> Some (xs ! i))"
  by (induction xs) (auto split: option.splits)

lemma findIndex_append:
  "findIndex p (xs @ ys) =
     (case findIndex p xs of Some i \<Rightarrow> Some i
      | None \<Rightarrow> (case findIndex p ys of None \<Rightarrow> None | Some j \<Rightarrow> Some (length xs + j)))"
  by (induction xs) (auto split: option.splits)

lemma length_filter_split:
  "length (filter P xs) = length xs - length (filter (\<lambda>x. \<not> P x) xs)"
  using sum_length_filter_compl [of P xs] by simp

subsection \<open>Decimal numerals\<close>

lemma digitVal_digitChar: "d < 10 \<Longrightarrow> digitVal (digitChar d) = d"
  by (simp add: digitVal_def digitChar_def)

lemma isDigit_digitChar: "d < 10 \<Longrightarrow> isDigit (digitChar d)"
  by (simp add: isDigit_def digitChar_def)

lemma digitsVal_snoc: "digitsVal (ds @ [c]) = 10 * digitsVal ds + digitVal c"
  by (simp add: digitsVal_def)

lemma digitsVal_showNat: "digitsVal (showNat n) = n"
proof (induction n rule: showNat.induct)
  case (1 n)
  show ?case
  proof (cases "n < 10")
    case True
    then show ?thesis
      by (simp add: showNat.simps [of n] digitsVal_def digitVal_digitChar)
  next
    case False
    with "1" have "digitsVal (showNat (n div 10)) = n div 10" by simp
    with False show ?thesis
      by (simp add: showNat.simps [of n] digitsVal_snoc digitVal_digitChar)
  qed
qed

lemma showNat_inj: "showNat m = showNat n \<Longrightarrow> m = n"
  by (metis digitsVal_showNat)

lemma showNat_digits: "list_all isDigit (showNat n)"
proof (induction n rule: showNat.induct)
  case (1 n)
  show ?case
  proof (cases "n < 10")
    case True
    then show ?thesis by (simp add: showNat.simps [of n] isDigit_digitChar)
  next
    case False
    with "1" have "list_all isDigit (showNat (n div 10))" by simp
    with False show ?thesis by (simp add: showNat.simps [of n] isDigit_digitChar)
  qed
qed


subsection \<open>Lower case\<close>

lemma lower_milk: "toLowerCase ''milk'' = ''milk''" "toLowerCase ''MILK'' = ''milk''"
  "toLowerCase ''Milk'' = ''milk''"
  by code_simp+

subsection \<open>The id loop of \<^verbatim>\<open>addItem\<close> ends\<close>

lemma truthyText_cases: "truthyText t = None \<or> truthyText t = Some OtherVal"
  by (simp add: truthyText_def)

lemma lookupIndex_truthyKeys: "lookupIndex s k \<noteq> None \<Longrightarrow> k \<in> truthyKeys s"
proof (cases "map_of (itemsById s) k")
  case (Some it)
  then have "(k, it) \<in> set (itemsById s)" by (rule map_of_SomeD)
  then have "k \<in> fst ` set (itemsById s)" by force
  then show ?thesis by (simp add: truthyKeys_def)
next
  case None
  assume "lookupIndex s k \<noteq> None"
  with None show ?thesis
    by (auto simp: lookupIndex_def inheritedProp_def truthyKeys_def
          split: option.splits if_splits)
qed

lemma finite_truthyKeys: "finite (truthyKeys s)"
  by (simp add: truthyKeys_def)

lemma finite_candidates:
  "finite {k. c \<le> k \<and> lookupIndex s (base @ ''-'' @ showNat k) \<noteq> None}"
proof -
  have "inj (\<lambda>k. base @ ''-'' @ showNat k)"
    by (rule injI) (simp add: showNat_inj)
  then have "finite ((\<lambda>k. base @ ''-'' @ showNat k) -` truthyKeys s)"
    by (intro finite_vimageI finite_truthyKeys)
  moreover have "{k. c \<le> k \<and> lookupIndex s (base @ ''-'' @ showNat k) \<noteq> None}
      \<subseteq> (\<lambda>k. base @ ''-'' @ showNat k) -` truthyKeys s"
  proof
    fix k assume "k \<in> {k. c \<le> k \<and> lookupIndex s (base @ ''-'' @ showNat k) \<noteq> None}"
    then have "lookupIndex s (base @ ''-'' @ showNat k) \<noteq> None" by simp
    then have "base @ ''-'' @ showNat k \<in> truthyKeys s" by (rule lookupIndex_truthyKeys)
    then show "k \<in> (\<lambda>k. base @ ''-'' @ showNat k) -` truthyKeys s" by simp
  qed
  ultimately show ?thesis by (rule rev_finite_subset)
qed

termination freeId
proof (relation "measure (\<lambda>(s, base, finalId, counter).
          2 * card {k. counter \<le> k \<and> lookupIndex s (base @ ''-'' @ showNat k) \<noteq> None} +
          (if lookupIndex s finalId \<noteq> None then 1 else 0))", goal_cases)
  case 1
  show ?case by simp
next
  case (2 s base finalId counter)
  let ?A = "\<lambda>c. {k. c \<le> k \<and> lookupIndex s (base @ ''-'' @ showNat k) \<noteq> None}"
  show ?case
  proof (cases "lookupIndex s (base @ ''-'' @ showNat counter) \<noteq> None")
    case True
    have fin: "finite (?A counter)" by (rule finite_candidates)
    have mem: "counter \<in> ?A counter" using True by simp
    have less: "card (?A counter - {counter}) < card (?A counter)"
      using fin mem by (rule card_Diff1_less)
    have "?A (Suc counter) = ?A counter - {counter}" by auto
    with less have "card (?A (Suc counter)) < card (?A counter)" by simp
    then show ?thesis by simp
  next
    case False
    have "?A (Suc counter) = ?A counter"
    proof (rule set_eqI)
      fix k
      show "k \<in> ?A (Suc counter) \<longleftrightarrow> k \<in> ?A counter"
      proof (cases "k = counter")
        case True
        with False show ?thesis by simp
      next
        case neq: False
        then show ?thesis by auto
      qed
    qed
    with False show ?thesis using 2 by simp
  qed
qed

declare freeId.simps [simp del]
subsection \<open>Resolving a bundle\<close>

text \<open>
  What \<open>getResolvedBundleItems\<close> keeps: the references under whose id the index
  reads as truthy, in the order of the bundle's item list, each with what the index
  gave.  A reference whose id is neither an own key of the index nor an inherited name
  is dropped.
\<close>

lemma getResolvedBundleItems_kept:
  assumes "List.find (\<lambda>b. bundle_id b = bundleId) (bundles s) = Some b"
  shows "getResolvedBundleItems s bundleId =
           map (\<lambda>bi. \<lparr>r_item = the (getItem s (bi_itemId bi)),
                       r_quantity = (case bi_quantity bi of None \<Rightarrow> Fin 1
                                     | Some q \<Rightarrow> num_or q (Fin 1)),
                       r_itemId = bi_itemId bi\<rparr>)
             (filter (\<lambda>bi. getItem s (bi_itemId bi) \<noteq> None) (bundle_items b))"
    and "length (getResolvedBundleItems s bundleId) =
           length (bundle_items b) -
           length (filter (\<lambda>bi. getItem s (bi_itemId bi) = None) (bundle_items b))"
proof -
  show eq: "getResolvedBundleItems s bundleId =
           map (\<lambda>bi. \<lparr>r_item = the (getItem s (bi_itemId bi)),
                       r_quantity = (case bi_quantity bi of None \<Rightarrow> Fin 1
                                     | Some q \<Rightarrow> num_or q (Fin 1)),
                       r_itemId = bi_itemId bi\<rparr>)
             (filter (\<lambda>bi. getItem s (bi_itemId bi) \<noteq> None) (bundle_items b))"
    using assms by (simp add: getResolvedBundleItems_def resolveRef_def filter_map comp_def)
  show "length (getResolvedBundleItems s bundleId) =
           length (bundle_items b) -
           length (filter (\<lambda>bi. getItem s (bi_itemId bi) = None) (bundle_items b))"
    unfolding eq
    using length_filter_split [of "\<lambda>bi. getItem s (bi_itemId bi) \<noteq> None" "bundle_items b"]
    by simp
qed

lemma getItem_absent:
  "itemsProto s = None \<Longrightarrow> i \<notin> fst ` set (itemsById s) \<Longrightarrow> i \<noteq> ''__proto__'' \<Longrightarrow>
   i \<notin> set objectProtoNames \<Longrightarrow> getItem s i = None"
  by (simp add: getItem_def lookupIndex_def inheritedProp_def map_of_eq_None_iff [THEN iffD2])

lemma getResolvedBundleItems_gone:
  "getItem ex_state ''gone'' = None"
  "getResolvedBundleItems ex_state ''b1'' =
     [\<lparr>r_item = ItemVal ex_milk, r_quantity = Fin 2, r_itemId = ''milk''\<rparr>]"
  by code_simp+

text \<open>
  Claim C6.  The claim has every reference whose id is absent from the store dropped,
  so that the length of the result is the number of references minus the number of
  dangling ones.  The code reads the index with \<^verbatim>\<open>state.itemsById[itemId] || null\<close> on a
  plain object.  For the bundle \<open>ex_b3\<close>, whose second reference has the id
  \<^verbatim>\<open>constructor\<close>, in a store whose only item is \<open>milk\<close>, that read gives the inherited
  function, which is not \<^verbatim>\<open>null\<close>: the dangling reference is kept, with a value that
  is not an item, and the result has two elements where the claim has one.
\<close>

theorem getResolvedBundleItems_inherited_name:
  "List.find (\<lambda>b. bundle_id b = ''b3'') (bundles ex_dangling) = Some ex_b3
   \<and> map bi_itemId (bundle_items ex_b3) = [''milk'', ''constructor'']
   \<and> map item_id (items ex_dangling) = [''milk'']
   \<and> map fst (itemsById ex_dangling) = [''milk'']
   \<and> getItem ex_dangling ''constructor'' = Some OtherVal
   \<and> getResolvedBundleItems ex_dangling ''b3'' =
       [\<lparr>r_item = ItemVal ex_milk, r_quantity = Fin 2, r_itemId = ''milk''\<rparr>,
        \<lparr>r_item = OtherVal, r_quantity = Fin 1, r_itemId = ''constructor''\<rparr>]
   \<and> length (getResolvedBundleItems ex_dangling ''b3'') = 2"
proof -
  have a: "List.find (\<lambda>b. bundle_id b = ''b3'') (bundles ex_dangling) = Some ex_b3"
    by (simp add: ex_dangling_def ex_b3_def)
  have b: "map bi_itemId (bundle_items ex_b3) = [''milk'', ''constructor'']"
    by (simp add: ex_b3_def)
  have c: "map item_id (items ex_dangling) = [''milk'']"
    by (simp add: ex_dangling_def ex_state_def ex_milk_def)
  have d: "map fst (itemsById ex_dangling) = [''milk'']"
    by (simp add: ex_dangling_def ex_state_def)
  have e: "getItem ex_dangling ''constructor'' = Some OtherVal" by code_simp
  have f: "getResolvedBundleItems ex_dangling ''b3'' =
       [\<lparr>r_item = ItemVal ex_milk, r_quantity = Fin 2, r_itemId = ''milk''\<rparr>,
        \<lparr>r_item = OtherVal, r_quantity = Fin 1, r_itemId = ''constructor''\<rparr>]"
    by code_simp
  have g: "length (getResolvedBundleItems ex_dangling ''b3'') = 2" by (simp add: f)
  from a b c d e f g show ?thesis by (intro conjI)
qed
subsection \<open>Deleting a bundle\<close>

lemma foldl_count: "foldl (\<lambda>count (k, v). count + fcard v) n al = n + sum_list (map (\<lambda>(k, v). fcard v) al)"
  by (induction al arbitrary: n) (auto)

lemma getSelectedItemCount_sum: "getSelectedItemCount s = sum_list (map (\<lambda>(k, v). fcard v) (selectedItems s))"
  by (simp add: getSelectedItemCount_def foldl_count)

lemma elem_le_sum_list: "x \<in> set xs \<Longrightarrow> (f x :: nat) \<le> sum_list (map f xs)"
  by (induction xs) auto

lemma sum_list_delete:
  "sum_list (map (\<lambda>(k, v). fcard v) (AList.delete k al)) =
   sum_list (map (\<lambda>(k, v). fcard v) (filter (\<lambda>(k', v). k' \<noteq> k) al))"
  by (induction al) (auto simp: AList.delete_eq)

lemma sum_list_keys:
  "distinct (map fst al) \<Longrightarrow>
   sum_list (map (\<lambda>(k, v). fcard v) al) = sum (selSize al) (fst ` set al)"
proof (induction al)
  case Nil then show ?case by simp
next
  case (Cons p al)
  obtain k v where p: "p = (k, v)" by (cases p)
  from Cons.prems p have nk: "k \<notin> fst ` set al" and d: "distinct (map fst al)" by auto
  have "sum (selSize (p # al)) (fst ` set al) = sum (selSize al) (fst ` set al)"
    by (rule sum.cong) (use nk p in \<open>auto simp: selSize_def\<close>)
  with Cons.IH [OF d] nk p show ?case by (simp add: selSize_def)
qed

lemma sum_list_delete_distinct:
  assumes "distinct (map fst al)"
  shows "sum_list (map (\<lambda>(k, v). fcard v) (AList.delete k al)) =
         sum_list (map (\<lambda>(k, v). fcard v) al) - selSize al k"
  using assms
proof (induction al)
  case Nil then show ?case by (simp add: selSize_def)
next
  case (Cons p al)
  obtain k' v where p: "p = (k', v)" by (cases p)
  show ?case
  proof (cases "k' = k")
    case True
    with Cons.prems p have "k \<notin> fst ` set al" by auto
    then have "AList.delete k al = al" by (simp add: AList.delete_idem delete_id)
    with True p show ?thesis by (simp add: selSize_def)
  next
    case False
    from Cons.prems have d: "distinct (map fst al)" by simp
    have le: "selSize al k \<le> sum_list (map (\<lambda>(k, v). fcard v) al)"
    proof (cases "map_of al k")
      case None then show ?thesis by (simp add: selSize_def)
    next
      case (Some w)
      then have "(k, w) \<in> set al" by (rule map_of_SomeD)
      then have "(\<lambda>(k, v). fcard v) (k, w) \<le> sum_list (map (\<lambda>(k, v). fcard v) al)"
        by (rule elem_le_sum_list)
      with Some show ?thesis by (simp add: selSize_def)
    qed
    from False p Cons.IH [OF d] le show ?thesis by (simp add: selSize_def)
  qed
qed

lemma splice1_distinct_ids:
  assumes "distinct (map f xs)" "i < length xs"
  shows "distinct (map f (splice1 i xs))" "f ` set (splice1 i xs) = f ` set xs - {f (xs ! i)}"
proof -
  have xs: "xs = take i xs @ xs ! i # drop (Suc i) xs"
    using assms(2) by (simp add: id_take_nth_drop)
  from assms(1) have d: "distinct (map f (take i xs @ xs ! i # drop (Suc i) xs))"
    using xs by simp
  then show "distinct (map f (splice1 i xs))" by (auto simp: splice1_def)
  have "f ` set xs = f ` set (take i xs @ xs ! i # drop (Suc i) xs)" using xs by simp
  with d show "f ` set (splice1 i xs) = f ` set xs - {f (xs ! i)}"
    by (auto simp: splice1_def) (metis imageI)+
qed

text \<open>
  Claim C8.  Deleting a bundle that is in the store removes it from the bundles
  collection (the first bundle with that id) and purges the selection state keyed by
  its id: the selected-items map loses its entry for the id and keeps every other
  entry, and the id leaves the expanded and the selected sets.  The selected-item
  count drops by the size of the purged set; when the selection map is keyed by ids of
  bundles of the store (and ids are unique), the count afterwards is the sum of the
  selection-set sizes of the remaining bundles.
\<close>

theorem deleteBundle_cascade:
  assumes "findIndex (\<lambda>b. bundle_id b = bundleId) (bundles s) = Some index"
  shows "fst (deleteBundle bundleId s) = True
       \<and> bundles (snd (deleteBundle bundleId s)) = splice1 index (bundles s)
       \<and> bundle_id (bundles s ! index) = bundleId
       \<and> map_of (selectedItems (snd (deleteBundle bundleId s))) bundleId = None
       \<and> bundleId |\<notin>| selectedBundles (snd (deleteBundle bundleId s))
       \<and> bundleId |\<notin>| expandedBundles (snd (deleteBundle bundleId s))
       \<and> selectedItems (snd (deleteBundle bundleId s)) =
            filter (\<lambda>(k, v). k \<noteq> bundleId) (selectedItems s)
       \<and> (distinct (map fst (selectedItems s)) \<longrightarrow>
            getSelectedItemCount (snd (deleteBundle bundleId s)) =
              getSelectedItemCount s - selSize (selectedItems s) bundleId)
       \<and> (distinct (map fst (selectedItems s)) \<and> distinct (map bundle_id (bundles s)) \<and>
          fst ` set (selectedItems s) \<subseteq> bundle_id ` set (bundles s) \<longrightarrow>
            getSelectedItemCount (snd (deleteBundle bundleId s)) =
              sum_list (map (\<lambda>b. selSize (selectedItems (snd (deleteBundle bundleId s))) (bundle_id b))
                 (bundles (snd (deleteBundle bundleId s)))))"
proof -
  let ?s' = "snd (deleteBundle bundleId s)"
  from findIndex_Some [OF assms] have i: "index < length (bundles s)"
    and idx: "bundle_id (bundles s ! index) = bundleId" by auto
  have b: "bundles ?s' = splice1 index (bundles s)" and ok: "fst (deleteBundle bundleId s) = True"
    and sel: "selectedItems ?s' = AList.delete bundleId (selectedItems s)"
    and sb: "bundleId |\<notin>| selectedBundles ?s'" and eb: "bundleId |\<notin>| expandedBundles ?s'"
    using assms by (simp_all add: deleteBundle_def)
  have none: "map_of (selectedItems ?s') bundleId = None"
    by (simp add: sel AList.delete_conv')
  have filt: "selectedItems ?s' = filter (\<lambda>(k, v). k \<noteq> bundleId) (selectedItems s)"
    unfolding sel AList.delete_eq by (rule filter_cong) auto
  have c1: "getSelectedItemCount ?s' = getSelectedItemCount s - selSize (selectedItems s) bundleId"
    if "distinct (map fst (selectedItems s))"
    using sum_list_delete_distinct [OF that, of bundleId]
    by (simp add: getSelectedItemCount_sum sel)
  have c2: "getSelectedItemCount ?s' =
      sum_list (map (\<lambda>b. selSize (selectedItems ?s') (bundle_id b)) (bundles ?s'))"
    if d1: "distinct (map fst (selectedItems s))" and d2: "distinct (map bundle_id (bundles s))"
      and sub: "fst ` set (selectedItems s) \<subseteq> bundle_id ` set (bundles s)"
  proof -
    have d1': "distinct (map fst (selectedItems ?s'))"
      unfolding sel using d1 by (rule distinct_delete)
    have d2': "distinct (map bundle_id (bundles ?s'))"
      and ids: "bundle_id ` set (bundles ?s') = bundle_id ` set (bundles s) - {bundleId}"
      unfolding b using splice1_distinct_ids [OF d2 i] idx by auto
    have keys: "fst ` set (selectedItems ?s') = fst ` set (selectedItems s) - {bundleId}"
      unfolding filt by force
    have sub': "fst ` set (selectedItems ?s') \<subseteq> bundle_id ` set (bundles ?s')"
      using sub keys ids by auto
    have "sum_list (map (\<lambda>b. selSize (selectedItems ?s') (bundle_id b)) (bundles ?s')) =
          sum_list (map (selSize (selectedItems ?s')) (map bundle_id (bundles ?s')))"
      by (simp add: comp_def)
    also have "\<dots> = sum (selSize (selectedItems ?s')) (set (map bundle_id (bundles ?s')))"
      using sum_list_distinct_conv_sum_set [OF d2', of "selSize (selectedItems ?s')"] by simp
    also have "\<dots> = sum (selSize (selectedItems ?s')) (fst ` set (selectedItems ?s'))"
    proof (rule sum.mono_neutral_right)
      show "finite (set (map bundle_id (bundles ?s')))" by simp
      show "fst ` set (selectedItems ?s') \<subseteq> set (map bundle_id (bundles ?s'))"
        using sub' by simp
      show "\<forall>i\<in>set (map bundle_id (bundles ?s')) - fst ` set (selectedItems ?s').
              selSize (selectedItems ?s') i = 0"
      proof
        fix i assume "i \<in> set (map bundle_id (bundles ?s')) - fst ` set (selectedItems ?s')"
        then have "i \<notin> fst ` set (selectedItems ?s')" by simp
        then have "map_of (selectedItems ?s') i = None" by (simp add: map_of_eq_None_iff)
        then show "selSize (selectedItems ?s') i = 0" by (simp add: selSize_def)
      qed
    qed
    also have "\<dots> = getSelectedItemCount ?s'"
      using sum_list_keys [OF d1'] by (simp add: getSelectedItemCount_sum)
    finally show ?thesis by simp
  qed
  from ok b idx none sb eb filt c1 c2 show ?thesis by blast
qed

theorem deleteBundle_cascade_witness:
  "findIndex (\<lambda>b. bundle_id b = ''b1'') (bundles ex_state) = Some 0
   \<and> getSelectedItemCount ex_state = 3
   \<and> bundles (snd (deleteBundle ''b1'' ex_state)) = [ex_b2]
   \<and> selectedItems (snd (deleteBundle ''b1'' ex_state)) = [(''b2'', {|''pasta'', ''sauce''|})]
   \<and> getSelectedItemCount (snd (deleteBundle ''b1'' ex_state)) = 2"
proof -
  have h: "findIndex (\<lambda>b. bundle_id b = ''b1'') (bundles ex_state) = Some 0"
    by (simp add: ex_state_def ex_b1_def)
  have d: "distinct (map fst (selectedItems ex_state))"
    by (simp add: ex_state_def)
  have c: "getSelectedItemCount ex_state = 3"
    by (simp add: getSelectedItemCount_def ex_state_def fcard_finsert_if)
  have z: "selSize (selectedItems ex_state) ''b1'' = 1"
    by (simp add: selSize_def ex_state_def fcard_finsert_if)
  from deleteBundle_cascade [OF h] d c z h show ?thesis
    by (simp add: ex_state_def splice1_def)
qed

subsection \<open>Merging into the shopping list\<close>

lemma findIndex_fresh_snoc:
  "list_all (\<lambda>x. \<not> p x) xs \<Longrightarrow> p y \<Longrightarrow> findIndex p (xs @ [y]) = Some (length xs)"
  by (induction xs) auto

lemma filter_fresh_snoc:
  "list_all (\<lambda>x. \<not> p x) xs \<Longrightarrow> p y \<Longrightarrow> filter p (xs @ [y]) = [y]"
  by (induction xs) auto

lemma findIndex_fresh: "list_all (\<lambda>x. \<not> p x) xs \<Longrightarrow> findIndex p xs = None"
  by (induction xs) auto

lemma findIndex_update_keep:
  assumes "findIndex p xs = Some i" "p y"
  shows "findIndex p (xs[i := y]) = Some i"
  using assms
proof (induction xs arbitrary: i)
  case Nil then show ?case by simp
next
  case (Cons x xs)
  show ?case
  proof (cases "p x")
    case True with Cons.prems show ?thesis by simp
  next
    case False
    with Cons.prems obtain k where k: "findIndex p xs = Some k" "i = Suc k" by auto
    from Cons.IH [OF k(1) Cons.prems(2)] False k(2) show ?thesis by simp
  qed
qed

lemma mergeInto_fields:
  "itemId (mergeInto e r) = itemId e" "name (mergeInto e r) = name e"
  "category (mergeInto e r) = category e" "unit (mergeInto e r) = unit e"
  "url (mergeInto e r) = url e" "store (mergeInto e r) = store e"
  "checked (mergeInto e r) = False"
  "quantities (mergeInto e r) = Some ((case quantities e of None \<Rightarrow> [] | Some qs \<Rightarrow> qs) @ [r])"
  by (simp_all add: mergeInto_def)

lemma matchesItem_mergeInto: "matchesItem it (mergeInto e r) = matchesItem it e"
  by (simp add: matchesItem_def mergeInto_fields)

lemma matchesName_mergeInto: "matchesName nm (mergeInto e r) = matchesName nm e"
  by (simp add: matchesName_def mergeInto_fields)

text \<open>
  Claim C10.  When \<open>addToShoppingList\<close> merges into an existing entry (the first one
  that matches), the shopping list keeps its length and its other entries, and the
  matched entry keeps its \<open>itemId\<close>, \<open>name\<close>, \<open>category\<close>, \<open>unit\<close>, \<open>url\<close> and
  \<open>store\<close>: only \<open>quantities\<close> (one record appended) and \<open>checked\<close> (now false)
  change.  An explicit unit override goes into the appended record only.
\<close>

theorem addToShoppingList_merge_frame:
  assumes "findIndex (matchesItem it) (shopping s) = Some i"
  shows "shopping (addToShoppingList it options s) =
           (shopping s)[i := (shopping s ! i)
              \<lparr>quantities := Some ((case quantities (shopping s ! i) of None \<Rightarrow> [] | Some qs \<Rightarrow> qs)
                                   @ [newRecord it options]),
               checked := False\<rparr>]
       \<and> i < length (shopping s)
       \<and> length (shopping (addToShoppingList it options s)) = length (shopping s)
       \<and> itemId (shopping (addToShoppingList it options s) ! i) = itemId (shopping s ! i)
       \<and> name (shopping (addToShoppingList it options s) ! i) = name (shopping s ! i)
       \<and> category (shopping (addToShoppingList it options s) ! i) = category (shopping s ! i)
       \<and> unit (shopping (addToShoppingList it options s) ! i) = unit (shopping s ! i)
       \<and> url (shopping (addToShoppingList it options s) ! i) = url (shopping s ! i)
       \<and> store (shopping (addToShoppingList it options s) ! i) = store (shopping s ! i)
       \<and> q_unit (newRecord it options) =
           (case opt_unit options of
              None \<Rightarrow> item_unit it
            | Some u \<Rightarrow> if u = [] then item_unit it else u)"
proof -
  from findIndex_Some [OF assms] have i: "i < length (shopping s)" by simp
  have upd: "shopping (addToShoppingList it options s) =
       (shopping s)[i := mergeInto (shopping s ! i) (newRecord it options)]"
    using assms by (simp add: addToShoppingList_def)
  have nth: "shopping (addToShoppingList it options s) ! i =
       mergeInto (shopping s ! i) (newRecord it options)"
    using i by (simp add: upd)
  have u: "q_unit (newRecord it options) =
           (case opt_unit options of
              None \<Rightarrow> item_unit it
            | Some u \<Rightarrow> if u = [] then item_unit it else u)"
    by (simp add: newRecord_def opt_or_def str_or_def split: option.splits)
  show ?thesis
    using i u by (simp add: nth mergeInto_fields) (simp add: upd mergeInto_def)
qed


theorem addToShoppingList_merge_frame_witness:
  "findIndex (matchesItem ex_milk) (shopping (ex_state\<lparr>shopping := [ex_milk_entry]\<rparr>)) = Some 0
   \<and> shopping (addToShoppingList ex_milk (ex_opts\<lparr>opt_unit := Some ''l''\<rparr>)
        (ex_state\<lparr>shopping := [ex_milk_entry]\<rparr>)) =
       [ex_milk_entry\<lparr>quantities :=
           Some [\<lparr>num = QNum (Fin 1), q_unit = ''pint'', q_from = Some ''Pasta''\<rparr>,
                 \<lparr>num = QNum (Fin 2), q_unit = ''l'', q_from = Some ''Breakfast Bundle''\<rparr>],
          checked := False\<rparr>]
   \<and> unit (shopping (addToShoppingList ex_milk (ex_opts\<lparr>opt_unit := Some ''l''\<rparr>)
        (ex_state\<lparr>shopping := [ex_milk_entry]\<rparr>)) ! 0) = ''pint''"
proof -
  have h: "findIndex (matchesItem ex_milk) (shopping (ex_state\<lparr>shopping := [ex_milk_entry]\<rparr>)) = Some 0"
    by (simp add: matchesItem_def ex_milk_entry_def ex_milk_def)
  from addToShoppingList_merge_frame [OF h, of "ex_opts\<lparr>opt_unit := Some ''l''\<rparr>"] h
  show ?thesis
    by (simp add: ex_milk_entry_def newRecord_def ex_opts_def opt_or_def str_or_def)
qed

subsection \<open>Adding the same item twice\<close>

lemma newEntry_matches:
  "matchesItem it \<lparr>itemId = Some (item_id it), name = nm, category = c, unit = u, url = ur,
       store = st, quantities = q, checked = ch\<rparr>"
  by (simp add: matchesItem_def)

lemma addToShoppingList_fresh:
  assumes "list_all (\<lambda>e. \<not> matchesItem it e) (shopping s)"
  shows "shopping (addToShoppingList it options s) = shopping s @ [freshEntry it options]"
  using findIndex_fresh [OF assms] by (simp add: addToShoppingList_def)

lemma addToShoppingList_last:
  assumes "list_all (\<lambda>e. \<not> matchesItem it e) es" "matchesItem it e"
  shows "shopping (addToShoppingList it options (s\<lparr>shopping := es @ [e]\<rparr>)) =
           es @ [mergeInto e (newRecord it options)]"
  using findIndex_fresh_snoc [OF assms] by (simp add: addToShoppingList_def)

lemma oneEntryTwoRecords_snoc:
  assumes "list_all (\<lambda>e. \<not> P e) es" "P e" "quantities e = Some [r1, r2]" "\<not> checked e"
  shows "oneEntryTwoRecords P (es @ [e])"
  using filter_fresh_snoc [OF assms(1,2)] assms(3,4) by (simp add: oneEntryTwoRecords_def)

lemma item_twice:
  assumes fresh: "list_all (\<lambda>e. \<not> matchesItem it e) (shopping s)"
  shows "shopping (addToShoppingList it o2 (addToShoppingList it o1 s)) =
           shopping s @ [mergeInto (freshEntry it o1) (newRecord it o2)]"
    and "shopping (addToShoppingList it o2
            (toggleShoppingChecked (int (length (shopping s))) (addToShoppingList it o1 s))) =
           shopping s @ [mergeInto (freshEntry it o1) (newRecord it o2)]"
proof -
  let ?s1 = "addToShoppingList it o1 s"
  have s1: "shopping ?s1 = shopping s @ [freshEntry it o1]"
    by (rule addToShoppingList_fresh [OF fresh])
  have m: "matchesItem it (freshEntry it o1)" by (simp add: freshEntry_def matchesItem_def)
  have "?s1 = ?s1\<lparr>shopping := shopping s @ [freshEntry it o1]\<rparr>" using s1 by simp
  then show "shopping (addToShoppingList it o2 ?s1) =
           shopping s @ [mergeInto (freshEntry it o1) (newRecord it o2)]"
    using addToShoppingList_last [OF fresh m, of o2 ?s1] by simp
  let ?t = "toggleShoppingChecked (int (length (shopping s))) ?s1"
  have t: "?t = ?t\<lparr>shopping := shopping s @ [(freshEntry it o1)\<lparr>checked := True\<rparr>]\<rparr>"
    by (simp add: toggleShoppingChecked_def s1 freshEntry_def)
  have m': "matchesItem it ((freshEntry it o1)\<lparr>checked := True\<rparr>)"
    by (simp add: freshEntry_def matchesItem_def)
  have "shopping (addToShoppingList it o2 ?t) =
      shopping s @ [mergeInto ((freshEntry it o1)\<lparr>checked := True\<rparr>) (newRecord it o2)]"
    using addToShoppingList_last [OF fresh m', of o2 ?t] t by simp
  then show "shopping (addToShoppingList it o2 ?t) =
           shopping s @ [mergeInto (freshEntry it o1) (newRecord it o2)]"
    by (simp add: mergeInto_def)
qed

lemma addManualToShopping_fresh:
  assumes "list_all (\<lambda>e. \<not> matchesName (m_name d) e) (shopping s)"
  shows "shopping (addManualToShopping d s) = shopping s @ [manualEntry d]"
  using findIndex_fresh [OF assms] by (simp add: addManualToShopping_def)

lemma addManualToShopping_last:
  assumes "list_all (\<lambda>e. \<not> matchesName (m_name d) e) es" "matchesName (m_name d) e"
  shows "shopping (addManualToShopping d (s\<lparr>shopping := es @ [e]\<rparr>)) =
           es @ [mergeInto e (manualRecord d)]"
  using findIndex_fresh_snoc [OF assms] by (simp add: addManualToShopping_def)

lemma matchesName_cong: "toLowerCase a = toLowerCase b \<Longrightarrow> matchesName a = matchesName b"
  by (rule ext) (simp add: matchesName_def)

lemma manual_twice:
  assumes lc: "toLowerCase (m_name d1) = toLowerCase (m_name d2)"
    and fresh: "list_all (\<lambda>e. \<not> matchesName (m_name d1) e) (shopping s)"
  shows "shopping (addManualToShopping d2 (addManualToShopping d1 s)) =
           shopping s @ [mergeInto (manualEntry d1) (manualRecord d2)]"
    and "shopping (addManualToShopping d2
            (toggleShoppingChecked (int (length (shopping s))) (addManualToShopping d1 s))) =
           shopping s @ [mergeInto (manualEntry d1) (manualRecord d2)]"
proof -
  let ?s1 = "addManualToShopping d1 s"
  have s1: "shopping ?s1 = shopping s @ [manualEntry d1]"
    by (rule addManualToShopping_fresh [OF fresh])
  have fresh2: "list_all (\<lambda>e. \<not> matchesName (m_name d2) e) (shopping s)"
    using fresh matchesName_cong [OF lc] by simp
  have m: "matchesName (m_name d2) (manualEntry d1)"
    using lc by (simp add: manualEntry_def matchesName_def)
  have "?s1 = ?s1\<lparr>shopping := shopping s @ [manualEntry d1]\<rparr>" using s1 by simp
  then show "shopping (addManualToShopping d2 ?s1) =
           shopping s @ [mergeInto (manualEntry d1) (manualRecord d2)]"
    using addManualToShopping_last [OF fresh2 m, of ?s1] by simp
  let ?t = "toggleShoppingChecked (int (length (shopping s))) ?s1"
  have t: "?t = ?t\<lparr>shopping := shopping s @ [(manualEntry d1)\<lparr>checked := True\<rparr>]\<rparr>"
    by (simp add: toggleShoppingChecked_def s1 manualEntry_def)
  have m': "matchesName (m_name d2) ((manualEntry d1)\<lparr>checked := True\<rparr>)"
    using lc by (simp add: manualEntry_def matchesName_def)
  have "shopping (addManualToShopping d2 ?t) =
      shopping s @ [mergeInto ((manualEntry d1)\<lparr>checked := True\<rparr>) (manualRecord d2)]"
    using addManualToShopping_last [OF fresh2 m', of ?t] t by simp
  then show "shopping (addManualToShopping d2 ?t) =
           shopping s @ [mergeInto (manualEntry d1) (manualRecord d2)]"
    by (simp add: mergeInto_def)
qed

lemma addToShoppingList_then_matches:
  "\<exists>i. findIndex (matchesItem it) (shopping (addToShoppingList it options s)) = Some i"
proof (cases "findIndex (matchesItem it) (shopping s)")
  case None
  then have "list_all (\<lambda>e. \<not> matchesItem it e) (shopping s)"
    by (simp add: findIndex_None list_all_iff)
  moreover have "matchesItem it (freshEntry it options)"
    by (simp add: freshEntry_def matchesItem_def)
  ultimately have "findIndex (matchesItem it) (shopping s @ [freshEntry it options]) =
      Some (length (shopping s))"
    by (rule findIndex_fresh_snoc)
  with None show ?thesis by (simp add: addToShoppingList_def)
next
  case (Some i)
  from findIndex_Some [OF Some] have "matchesItem it (shopping s ! i)" by simp
  then have "matchesItem it (mergeInto (shopping s ! i) (newRecord it options))"
    by (simp add: matchesItem_mergeInto)
  from findIndex_update_keep [OF Some this] Some show ?thesis
    by (simp add: addToShoppingList_def)
qed

lemma addManualToShopping_then_matches:
  "\<exists>i. findIndex (matchesName (m_name d)) (shopping (addManualToShopping d s)) = Some i"
proof (cases "findIndex (matchesName (m_name d)) (shopping s)")
  case None
  then have "list_all (\<lambda>e. \<not> matchesName (m_name d) e) (shopping s)"
    by (simp add: findIndex_None list_all_iff)
  moreover have "matchesName (m_name d) (manualEntry d)"
    by (simp add: manualEntry_def matchesName_def)
  ultimately have "findIndex (matchesName (m_name d)) (shopping s @ [manualEntry d]) =
      Some (length (shopping s))"
    by (rule findIndex_fresh_snoc)
  with None show ?thesis by (simp add: addManualToShopping_def)
next
  case (Some i)
  from findIndex_Some [OF Some] have "matchesName (m_name d) (shopping s ! i)" by simp
  then have "matchesName (m_name d) (mergeInto (shopping s ! i) (manualRecord d))"
    by (simp add: matchesName_mergeInto)
  from findIndex_update_keep [OF Some this] Some show ?thesis
    by (simp add: addManualToShopping_def)
qed

lemma addToShoppingList_merge_length:
  "findIndex (matchesItem it) (shopping s) = Some i \<Longrightarrow>
   length (shopping (addToShoppingList it options s)) = length (shopping s)"
  by (simp add: addToShoppingList_def)

lemma addManualToShopping_merge_length:
  "findIndex (matchesName (m_name d)) (shopping s) = Some i \<Longrightarrow>
   length (shopping (addManualToShopping d s)) = length (shopping s)"
  by (simp add: addManualToShopping_def)

text \<open>
  Claim C1, as amended.  On a shopping list that holds no entry for the item, adding
  the same item twice with \<open>addToShoppingList\<close> (the second add finds the entry of
  the first by its \<open>itemId\<close>), or adding a name twice with \<open>addManualToShopping\<close>
  (the second add finds it by the name, compared without regard to case), yields
  exactly one entry for the item; it holds two quantity records and is unchecked
  after the second add, also when it was checked in between; the list has grown by
  one entry.  On any list the second add creates no entry.
\<close>

theorem shopping_add_twice:
  "(list_all (\<lambda>e. \<not> matchesItem it e) (shopping s) \<longrightarrow>
      oneEntryTwoRecords (matchesItem it)
        (shopping (addToShoppingList it o2 (addToShoppingList it o1 s)))
    \<and> oneEntryTwoRecords (matchesItem it)
        (shopping (addToShoppingList it o2
           (toggleShoppingChecked (int (length (shopping s))) (addToShoppingList it o1 s))))
    \<and> length (shopping (addToShoppingList it o2 (addToShoppingList it o1 s))) =
        Suc (length (shopping s)))
 \<and> (toLowerCase (m_name d1) = toLowerCase (m_name d2) \<and>
    list_all (\<lambda>e. \<not> matchesName (m_name d1) e) (shopping s) \<longrightarrow>
      oneEntryTwoRecords (matchesName (m_name d1))
        (shopping (addManualToShopping d2 (addManualToShopping d1 s)))
    \<and> oneEntryTwoRecords (matchesName (m_name d1))
        (shopping (addManualToShopping d2
           (toggleShoppingChecked (int (length (shopping s))) (addManualToShopping d1 s))))
    \<and> length (shopping (addManualToShopping d2 (addManualToShopping d1 s))) =
        Suc (length (shopping s)))
 \<and> length (shopping (addToShoppingList it o2 (addToShoppingList it o1 s))) =
     length (shopping (addToShoppingList it o1 s))
 \<and> (toLowerCase (m_name d1) = toLowerCase (m_name d2) \<longrightarrow>
     length (shopping (addManualToShopping d2 (addManualToShopping d1 s))) =
     length (shopping (addManualToShopping d1 s)))"
proof -
  have item: "oneEntryTwoRecords (matchesItem it)
        (shopping (addToShoppingList it o2 (addToShoppingList it o1 s)))
    \<and> oneEntryTwoRecords (matchesItem it)
        (shopping (addToShoppingList it o2
           (toggleShoppingChecked (int (length (shopping s))) (addToShoppingList it o1 s))))
    \<and> length (shopping (addToShoppingList it o2 (addToShoppingList it o1 s))) =
        Suc (length (shopping s))"
    if fresh: "list_all (\<lambda>e. \<not> matchesItem it e) (shopping s)"
  proof -
    have "oneEntryTwoRecords (matchesItem it)
            (shopping s @ [mergeInto (freshEntry it o1) (newRecord it o2)])"
      by (rule oneEntryTwoRecords_snoc [OF fresh])
        (simp_all add: matchesItem_def mergeInto_def freshEntry_def)
    with item_twice [OF fresh, of o2 o1] show ?thesis by simp
  qed
  have manual: "oneEntryTwoRecords (matchesName (m_name d1))
        (shopping (addManualToShopping d2 (addManualToShopping d1 s)))
    \<and> oneEntryTwoRecords (matchesName (m_name d1))
        (shopping (addManualToShopping d2
           (toggleShoppingChecked (int (length (shopping s))) (addManualToShopping d1 s))))
    \<and> length (shopping (addManualToShopping d2 (addManualToShopping d1 s))) =
        Suc (length (shopping s))"
    if lc: "toLowerCase (m_name d1) = toLowerCase (m_name d2)"
      and fresh: "list_all (\<lambda>e. \<not> matchesName (m_name d1) e) (shopping s)"
  proof -
    have "oneEntryTwoRecords (matchesName (m_name d1))
            (shopping s @ [mergeInto (manualEntry d1) (manualRecord d2)])"
      by (rule oneEntryTwoRecords_snoc [OF fresh])
        (simp_all add: matchesName_def mergeInto_def manualEntry_def)
    with manual_twice [OF lc fresh] show ?thesis by simp
  qed
  have len1: "length (shopping (addToShoppingList it o2 (addToShoppingList it o1 s))) =
     length (shopping (addToShoppingList it o1 s))"
    using addToShoppingList_then_matches [of it o1 s] addToShoppingList_merge_length by blast
  have len2: "length (shopping (addManualToShopping d2 (addManualToShopping d1 s))) =
     length (shopping (addManualToShopping d1 s))"
    if lc: "toLowerCase (m_name d1) = toLowerCase (m_name d2)"
  proof -
    from addManualToShopping_then_matches [of d1 s] obtain i where
      "findIndex (matchesName (m_name d1)) (shopping (addManualToShopping d1 s)) = Some i" ..
    then have "findIndex (matchesName (m_name d2)) (shopping (addManualToShopping d1 s)) = Some i"
      using matchesName_cong [OF lc] by simp
    then show ?thesis by (rule addManualToShopping_merge_length)
  qed
  from item manual len1 len2 show ?thesis by blast
qed


theorem shopping_add_twice_witness:
  "shopping ex_state = []
   \<and> toLowerCase (m_name ex_manual) = toLowerCase (m_name ex_manual_upper)
   \<and> oneEntryTwoRecords (matchesItem ex_milk)
       (shopping (addToShoppingList ex_milk ex_opts (addToShoppingList ex_milk ex_opts ex_state)))
   \<and> oneEntryTwoRecords (matchesItem ex_milk)
       (shopping (addToShoppingList ex_milk ex_opts
          (toggleShoppingChecked 0 (addToShoppingList ex_milk ex_opts ex_state))))
   \<and> length (shopping (addToShoppingList ex_milk ex_opts (addToShoppingList ex_milk ex_opts ex_state))) = 1
   \<and> oneEntryTwoRecords (matchesName ''milk'')
       (shopping (addManualToShopping ex_manual_upper (addManualToShopping ex_manual ex_state)))
   \<and> length (shopping (addManualToShopping ex_manual_upper (addManualToShopping ex_manual ex_state))) = 1"
proof -
  have e: "shopping ex_state = []" by (simp add: ex_state_def)
  have lc: "toLowerCase (m_name ex_manual) = toLowerCase (m_name ex_manual_upper)"
    by (simp add: ex_manual_def ex_manual_upper_def lower_milk)
  from shopping_add_twice [of ex_milk ex_state ex_opts ex_opts ex_manual ex_manual_upper] e lc
  show ?thesis by (simp add: ex_manual_def)
qed

text \<open>
  The claim as stated fails on a list that already holds the entry (the two adds
  bring it to three records), and \<open>addToShoppingList\<close> compares names exactly: after
  a manual entry \<open>milk\<close>, adding the item \<open>Milk\<close> makes a second entry.
\<close>

theorem shopping_add_twice_counterexample:
  "\<not> oneEntryTwoRecords (matchesItem ex_milk)
       (shopping (addToShoppingList ex_milk ex_opts
          (addToShoppingList ex_milk ex_opts (ex_state\<lparr>shopping := [ex_milk_entry]\<rparr>))))
   \<and> map (\<lambda>e. map_option length (quantities e))
       (shopping (addToShoppingList ex_milk ex_opts
          (addToShoppingList ex_milk ex_opts (ex_state\<lparr>shopping := [ex_milk_entry]\<rparr>)))) = [Some 3]
   \<and> \<not> oneEntryTwoRecords (matchesName ''milk'')
       (shopping (addToShoppingList ex_milk ex_opts (addManualToShopping ex_manual ex_state)))
   \<and> map name (shopping (addToShoppingList ex_milk ex_opts (addManualToShopping ex_manual ex_state))) =
       [''milk'', ''Milk'']"
  by (simp add: oneEntryTwoRecords_def addToShoppingList_def addManualToShopping_def
      matchesItem_def matchesName_def mergeInto_def manualEntry_def freshEntry_def
      ex_state_def ex_milk_entry_def ex_milk_def ex_manual_def lower_milk)

subsection \<open>Incrementing and decrementing a quantity\<close>

lemma at_index_Some: "at_index xs index = Some e \<Longrightarrow> 0 \<le> index \<and> nat index < length xs \<and> xs ! nat index = e"
  by (auto simp: at_index_def split: if_splits)

lemma decrementNum_positive:
  "jsgt (toNumber q) (Fin 0) \<Longrightarrow> jsgt (toNumber (decrementNum q)) (Fin 0)"
proof (cases "jsgt (toNumber q) (Fin 1)")
  case False
  assume "jsgt (toNumber q) (Fin 0)"
  with False show ?thesis by (simp add: decrementNum_def)
next
  case True
  then show ?thesis
    by (cases "toNumber q") (simp_all add: decrementNum_def toNumber_def)
qed

lemma decrementNum_Fin:
  "decrementNum (QNum (Fin r)) = QNum (Fin (if 1 < r then r - 1 else r))"
  by (simp add: decrementNum_def toNumber_def)

lemma incrementNum_Fin:
  "incrementNum (QNum (Fin r)) = QNum (Fin (if r = 0 then 2 else r + 1))"
  by (simp add: incrementNum_def num_or_def falsy_def)

lemma whole_above_one:
  assumes "(r::rat) \<in> \<int>" "1 < r"
  shows "1 \<le> r - 1"
proof -
  from assms(1) obtain k :: int where k: "r = of_int k" by (auto elim: Ints_cases)
  with assms(2) have "1 < k" by simp
  then have "1 \<le> k - 1" by simp
  then have "(1::rat) \<le> of_int (k - 1)" by (simp only: of_int_1_le_iff)
  with k show ?thesis by simp
qed

text \<open>
  Claim C7, as amended.  For an index inside the shopping list, \<open>incrementShoppingQty\<close>
  and \<open>decrementShoppingQty\<close> change nothing but the \<open>num\<close> of the first quantity
  record of that entry.  Decrement subtracts one only from a quantity above \<open>1\<close>: a
  quantity of \<open>1\<close> stays \<open>1\<close>, a positive quantity stays positive (it never reaches
  zero or a negative number), and a whole quantity of at least \<open>1\<close> stays at least
  \<open>1\<close>; a fractional quantity between \<open>1\<close> and \<open>2\<close> drops below \<open>1\<close>.  Increment on
  an entry without quantity records seeds a single record with value \<open>2\<close>.
\<close>

theorem shoppingQty_first_record:
  assumes "at_index (shopping s) index = Some e"
  shows "shopping (decrementShoppingQty index s) =
           (shopping s)[nat index := e\<lparr>quantities :=
              (case quantities e of
                 Some (q # qs) \<Rightarrow> Some (q\<lparr>num := decrementNum (num q)\<rparr> # qs)
               | other \<Rightarrow> other)\<rparr>]
       \<and> shopping (incrementShoppingQty index s) =
           (shopping s)[nat index := e\<lparr>quantities :=
              (case quantities e of
                 Some (q # qs) \<Rightarrow> Some (q\<lparr>num := incrementNum (num q)\<rparr> # qs)
               | other \<Rightarrow> Some [\<lparr>num = QNum (Fin 2), q_unit = unit e, q_from = None\<rparr>])\<rparr>]
       \<and> decrementNum (QNum (Fin 1)) = QNum (Fin 1)
       \<and> decrementNum (QNum (Fin r)) = QNum (Fin (if 1 < r then r - 1 else r))
       \<and> (0 < r \<longrightarrow> 0 < (if 1 < r then r - 1 else r))
       \<and> (r \<in> \<int> \<and> 1 \<le> r \<longrightarrow> 1 \<le> (if 1 < r then r - 1 else r))
       \<and> (jsgt (toNumber q0) (Fin 0) \<longrightarrow> jsgt (toNumber (decrementNum q0)) (Fin 0))"
proof -
  from at_index_Some [OF assms] have i: "nat index < length (shopping s)"
    and e: "shopping s ! nat index = e" by simp_all
  have d: "shopping (decrementShoppingQty index s) =
           (shopping s)[nat index := e\<lparr>quantities :=
              (case quantities e of
                 Some (q # qs) \<Rightarrow> Some (q\<lparr>num := decrementNum (num q)\<rparr> # qs)
               | other \<Rightarrow> other)\<rparr>]"
  proof (cases "\<exists>q qs. quantities e = Some (q # qs)")
    case True
    then show ?thesis using assms by (auto simp: decrementShoppingQty_def)
  next
    case False
    then have same: "(case quantities e of
                 Some (q # qs) \<Rightarrow> Some (q\<lparr>num := decrementNum (num q)\<rparr> # qs)
               | other \<Rightarrow> other) = quantities e"
      by (auto split: option.splits list.splits)
    have "(shopping s)[nat index := e\<lparr>quantities := quantities e\<rparr>] = shopping s"
      using e by (simp add: list_update_same_conv i)
    moreover have "shopping (decrementShoppingQty index s) = shopping s"
      using assms False by (auto simp: decrementShoppingQty_def split: option.splits list.splits)
    ultimately show ?thesis by (simp only: same)
  qed
  have n: "shopping (incrementShoppingQty index s) =
           (shopping s)[nat index := e\<lparr>quantities :=
              (case quantities e of
                 Some (q # qs) \<Rightarrow> Some (q\<lparr>num := incrementNum (num q)\<rparr> # qs)
               | other \<Rightarrow> Some [\<lparr>num = QNum (Fin 2), q_unit = unit e, q_from = None\<rparr>])\<rparr>]"
    using assms
    by (auto simp: incrementShoppingQty_def str_or_def split: option.splits list.splits)
  have w: "1 \<le> (if 1 < r then r - 1 else r)" if "r \<in> \<int> \<and> 1 \<le> r"
    using that whole_above_one [of r] by auto
  from d n w decrementNum_positive [of q0] show ?thesis
    by (simp add: decrementNum_Fin)
qed

theorem shoppingQty_first_record_witness:
  "at_index (shopping (ex_state\<lparr>shopping := [ex_milk_entry]\<rparr>)) 0 = Some ex_milk_entry
   \<and> map quantities (shopping (decrementShoppingQty 0 (ex_state\<lparr>shopping := [ex_milk_entry]\<rparr>))) =
       [Some [\<lparr>num = QNum (Fin 1), q_unit = ''pint'', q_from = Some ''Pasta''\<rparr>]]
   \<and> map quantities (shopping (incrementShoppingQty 0 (ex_state\<lparr>shopping := [ex_milk_entry]\<rparr>))) =
       [Some [\<lparr>num = QNum (Fin 2), q_unit = ''pint'', q_from = Some ''Pasta''\<rparr>]]
   \<and> map quantities (shopping (incrementShoppingQty 0
        (ex_state\<lparr>shopping := [ex_milk_entry\<lparr>quantities := None\<rparr>]\<rparr>))) =
       [Some [\<lparr>num = QNum (Fin 2), q_unit = ''pint'', q_from = None\<rparr>]]"
proof -
  have h: "at_index (shopping (ex_state\<lparr>shopping := [ex_milk_entry]\<rparr>)) 0 = Some ex_milk_entry"
    by (simp add: at_index_def)
  have h': "at_index (shopping (ex_state\<lparr>shopping := [ex_milk_entry\<lparr>quantities := None\<rparr>]\<rparr>)) 0 =
      Some (ex_milk_entry\<lparr>quantities := None\<rparr>)"
    by (simp add: at_index_def)
  from shoppingQty_first_record [OF h, of 1 QUndef] shoppingQty_first_record [OF h', of 1 QUndef] h
  show ?thesis
    by (simp add: ex_milk_entry_def decrementNum_Fin incrementNum_Fin)
qed

text \<open>
  ``Decrement floors at 1'' fails for the half steps that the quantity inputs allow:
  a first quantity of \<open>3/2\<close> is decremented to \<open>1/2\<close>.
\<close>

theorem decrement_floor_counterexample:
  "map (\<lambda>e. map_option (map num) (quantities e))
     (shopping (ex_state\<lparr>shopping := [ex_fraction_entry]\<rparr>)) =
       [Some [QNum (Fin (3 / 2)), QNum (Fin 4)]]
   \<and> map (\<lambda>e. map_option (map num) (quantities e))
     (shopping (decrementShoppingQty 0 (ex_state\<lparr>shopping := [ex_fraction_entry]\<rparr>))) =
       [Some [QNum (Fin (1 / 2)), QNum (Fin 4)]]
   \<and> (1 / 2 :: rat) < 1"
  by (simp add: decrementShoppingQty_def at_index_def ex_fraction_entry_def decrementNum_Fin)

subsection \<open>Weekly-plan slots\<close>







lemma idCount_pushUnique_other: "j \<noteq> i \<Longrightarrow> idCount j (pushUnique i n l) = idCount j l"
  by (simp add: pushUnique_def idCount_def refersTo_def)






lemma planRow_setSlot_other:
  "type' \<noteq> type \<or> key' \<noteq> key \<Longrightarrow> planRow (setSlot s type key v) type' key' = planRow s type' key'"
  by (auto simp: planRow_def setSlot_def split: option.splits)

















subsection \<open>Item ids\<close>

lemma freeId_free: "lookupIndex s (freeId s base finalId counter) = None"
proof (induction s base finalId counter rule: freeId.induct)
  case (1 s base finalId counter)
  show ?case
  proof (cases "lookupIndex s finalId \<noteq> None")
    case True
    with "1" show ?thesis by (simp add: freeId.simps [of s base finalId counter])
  next
    case False
    then show ?thesis by (simp add: freeId.simps [of s base finalId counter])
  qed
qed

lemma freeId_form:
  "freeId s base finalId counter = finalId \<and> lookupIndex s finalId = None
   \<or> lookupIndex s finalId \<noteq> None \<and>
     (\<exists>n\<ge>counter. freeId s base finalId counter = base @ ''-'' @ showNat n \<and>
        (\<forall>m. counter \<le> m \<and> m < n \<longrightarrow> lookupIndex s (base @ ''-'' @ showNat m) \<noteq> None))"
proof (induction s base finalId counter rule: freeId.induct)
  case (1 s base finalId counter)
  let ?next = "base @ ''-'' @ showNat counter"
  let ?taken = "\<lambda>m. lookupIndex s (base @ ''-'' @ showNat m) \<noteq> None"
  show ?case
  proof (cases "lookupIndex s finalId \<noteq> None")
    case False
    then have "freeId s base finalId counter = finalId"
      by (simp add: freeId.simps [of s base finalId counter])
    with False show ?thesis by simp
  next
    case True
    have step: "freeId s base finalId counter = freeId s base ?next (Suc counter)"
      using True by (simp add: freeId.simps [of s base finalId counter])
    have IH: "freeId s base ?next (Suc counter) = ?next \<and> lookupIndex s ?next = None
       \<or> lookupIndex s ?next \<noteq> None \<and>
          (\<exists>n\<ge>Suc counter. freeId s base ?next (Suc counter) = base @ ''-'' @ showNat n \<and>
             (\<forall>m. Suc counter \<le> m \<and> m < n \<longrightarrow> ?taken m))"
      by (rule "1") (rule True)
    have "\<exists>n\<ge>counter. freeId s base finalId counter = base @ ''-'' @ showNat n \<and>
        (\<forall>m. counter \<le> m \<and> m < n \<longrightarrow> ?taken m)"
      using IH
    proof (elim disjE conjE exE)
      assume "freeId s base ?next (Suc counter) = ?next"
      then have "freeId s base finalId counter = base @ ''-'' @ showNat counter"
        by (simp only: step)
      then have "counter \<le> counter \<and> freeId s base finalId counter = base @ ''-'' @ showNat counter \<and>
        (\<forall>m. counter \<le> m \<and> m < counter \<longrightarrow> ?taken m)" by auto
      then show ?thesis by (rule exI)
    next
      fix n
      assume t: "?taken counter" and n: "Suc counter \<le> n"
        and r: "freeId s base ?next (Suc counter) = base @ ''-'' @ showNat n"
        and a: "\<forall>m. Suc counter \<le> m \<and> m < n \<longrightarrow> ?taken m"
      have "?taken m" if "counter \<le> m \<and> m < n" for m
      proof (cases "m = counter")
        case True
        with t show ?thesis by simp
      next
        case False
        with that have "Suc counter \<le> m \<and> m < n" by simp
        with a show ?thesis by blast
      qed
      then have all: "\<forall>m. counter \<le> m \<and> m < n \<longrightarrow> ?taken m" by blast
      from r have "freeId s base finalId counter = base @ ''-'' @ showNat n"
        by (simp only: step)
      moreover from n have "counter \<le> n" by simp
      ultimately have "counter \<le> n \<and> freeId s base finalId counter = base @ ''-'' @ showNat n \<and>
        (\<forall>m. counter \<le> m \<and> m < n \<longrightarrow> ?taken m)" using all by blast
      then show ?thesis by (rule exI)
    qed
    with True show ?thesis by blast
  qed
qed

lemma inheritedProp_proto: "inheritedProp proto ''__proto__'' \<noteq> None"
  by (simp add: inheritedProp_def split: option.splits)

lemma truthyText_not_item: "truthyText t \<noteq> Some (ItemVal i)"
  by (simp add: truthyText_def)

lemma inheritedProp_item:
  "inheritedProp proto k = Some (ItemVal i) \<Longrightarrow> k = ''__proto__'' \<and> proto = Some i"
  by (auto simp: inheritedProp_def truthyText_not_item split: option.splits if_splits)

lemma lookupIndex_proto: "lookupIndex s ''__proto__'' \<noteq> None"
  using inheritedProp_proto [of "itemsProto s"]
  by (cases "map_of (itemsById s) ''__proto__''") (simp_all add: lookupIndex_def)

lemma freeId_not_proto: "freeId s base finalId counter \<noteq> ''__proto__''"
proof
  assume "freeId s base finalId counter = ''__proto__''"
  with freeId_free [of s base finalId counter] have "lookupIndex s ''__proto__'' = None"
    by simp
  with lookupIndex_proto [of s] show False by simp
qed

lemma setIndex_own:
  "k \<noteq> ''__proto__'' \<Longrightarrow> setIndex k it s = s\<lparr>itemsById := AList.update k it (itemsById s)\<rparr>"
  by (simp add: setIndex_def)

lemma addItem_result:
  "addItem d s =
     (let it = \<lparr>item_id = freeId s (baseId d) (baseId d) 1,
                item_name = d_name d,
                item_category = opt_or (d_category d) ''Other|Other'',
                item_unit = opt_or (d_unit d) ''item'',
                item_sources = (case d_sources d of None \<Rightarrow> [] | Some ss \<Rightarrow> ss)\<rparr>
      in (it, s\<lparr>items := items s @ [it],
                itemsById := AList.update (item_id it) it (itemsById s)\<rparr>))"
  by (simp add: addItem_def baseId_def Let_def setIndex_own freeId_not_proto)

lemma addItem_fields:
  "item_id (fst (addItem d s)) = freeId s (baseId d) (baseId d) 1"
  "item_name (fst (addItem d s)) = d_name d"
  "items (snd (addItem d s)) = items s @ [fst (addItem d s)]"
  "itemsById (snd (addItem d s)) =
     AList.update (item_id (fst (addItem d s))) (fst (addItem d s)) (itemsById s)"
  "bundles (snd (addItem d s)) = bundles s"
  "shopping (snd (addItem d s)) = shopping s"
  "itemsProto (snd (addItem d s)) = itemsProto s"
  by (simp_all add: addItem_result Let_def)

lemma lookupIndex_update:
  "itemsById t = AList.update k it (itemsById s) \<Longrightarrow> itemsProto t = itemsProto s \<Longrightarrow>
   lookupIndex t = (lookupIndex s)(k \<mapsto> ItemVal it)"
proof (rule ext)
  fix x
  assume a: "itemsById t = AList.update k it (itemsById s)" and b: "itemsProto t = itemsProto s"
  show "lookupIndex t x = ((lookupIndex s)(k \<mapsto> ItemVal it)) x"
    unfolding lookupIndex_def a b by (simp add: update_conv')
qed

lemma addItem_lookup:
  "lookupIndex (snd (addItem d s)) =
     (lookupIndex s)(item_id (fst (addItem d s)) \<mapsto> ItemVal (fst (addItem d s)))"
  by (rule lookupIndex_update) (rule addItem_fields)+

lemma lookupIndex_own:
  "lookupIndex s k = None \<Longrightarrow> k \<notin> fst ` set (itemsById s)"
proof
  assume n: "lookupIndex s k = None" and "k \<in> fst ` set (itemsById s)"
  then have "map_of (itemsById s) k \<noteq> None" by (simp add: map_of_eq_None_iff)
  then obtain it where "map_of (itemsById s) k = Some it" by blast
  then have "lookupIndex s k = Some (ItemVal it)" by (simp add: lookupIndex_def)
  with n show False by simp
qed

lemma consistent_lookup:
  "indexConsistent s \<Longrightarrow> i \<in> set (items s) \<Longrightarrow> lookupIndex s (item_id i) = Some (ItemVal i)"
  by (simp add: indexConsistent_def list_all_iff)

text \<open>The index that \<open>rebuildItemsIndex\<close> builds.\<close>

lemma setIndex_same: "lookupIndex (setIndex k it t) k = Some (ItemVal it)"
  by (auto simp: setIndex_def lookupIndex_def inheritedProp_def update_conv'
        split: option.splits)

lemma setIndex_other:
  assumes "lookupIndex t k = Some (ItemVal i)" "k' \<noteq> k"
  shows "lookupIndex (setIndex k' it t) k = Some (ItemVal i)"
proof (cases "k' = ''__proto__'' \<and> map_of (itemsById t) k' = None")
  case False
  then have "setIndex k' it t = t\<lparr>itemsById := AList.update k' it (itemsById t)\<rparr>"
    by (auto simp: setIndex_def)
  moreover have "lookupIndex (t\<lparr>itemsById := AList.update k' it (itemsById t)\<rparr>) =
      (lookupIndex t)(k' \<mapsto> ItemVal it)"
    by (rule lookupIndex_update) simp_all
  ultimately show ?thesis using assms by simp
next
  case True
  with assms(2) have k: "k \<noteq> ''__proto__''" by auto
  from True have "k' = ''__proto__''" by (rule conjunct1)
  moreover from True have "map_of (itemsById t) k' = None" by (rule conjunct2)
  ultimately have st: "setIndex k' it t = t\<lparr>itemsProto := Some it\<rparr>"
    unfolding setIndex_def by (simp only: simp_thms if_True)
  have "map_of (itemsById t) k = Some i"
  proof (cases "map_of (itemsById t) k")
    case None
    with assms(1) have "inheritedProp (itemsProto t) k = Some (ItemVal i)"
      by (simp add: lookupIndex_def)
    from inheritedProp_item [OF this] k show ?thesis by simp
  next
    case (Some j)
    with assms(1) show ?thesis by (simp add: lookupIndex_def)
  qed
  then show ?thesis unfolding st lookupIndex_def by simp
qed

lemma rebuild_items: "items (foldl (\<lambda>t it. setIndex (item_id it) it t) t xs) = items t"
  by (induction xs arbitrary: t) (simp_all add: setIndex_def)

lemma rebuild_other:
  "lookupIndex t k = Some (ItemVal i) \<Longrightarrow> k \<notin> item_id ` set xs \<Longrightarrow>
   lookupIndex (foldl (\<lambda>t it. setIndex (item_id it) it t) t xs) k = Some (ItemVal i)"
proof (induction xs arbitrary: t)
  case Nil
  then show ?case by simp
next
  case (Cons x xs)
  from Cons.prems(2) have ne: "item_id x \<noteq> k" and rest: "k \<notin> item_id ` set xs" by auto
  have "lookupIndex (setIndex (item_id x) x t) k = Some (ItemVal i)"
    using Cons.prems(1) ne by (rule setIndex_other)
  from Cons.IH [OF this rest] show ?case by simp
qed

lemma rebuild_lookup:
  "distinct (map item_id xs) \<Longrightarrow> i \<in> set xs \<Longrightarrow>
   lookupIndex (foldl (\<lambda>t it. setIndex (item_id it) it t) t xs) (item_id i) = Some (ItemVal i)"
proof (induction xs arbitrary: t)
  case Nil
  then show ?case by simp
next
  case (Cons x xs)
  show ?case
  proof (cases "i = x")
    case True
    from Cons.prems(1) have "item_id x \<notin> item_id ` set xs" by simp
    from rebuild_other [OF setIndex_same this] True show ?thesis by simp
  next
    case False
    with Cons.prems have "distinct (map item_id xs)" "i \<in> set xs" by simp_all
    from Cons.IH [OF this] show ?thesis by simp
  qed
qed

lemma rebuild_keys:
  "fst ` set (itemsById (foldl (\<lambda>t it. setIndex (item_id it) it t) t xs))
     \<subseteq> fst ` set (itemsById t) \<union> item_id ` set xs"
proof (induction xs arbitrary: t)
  case Nil
  show ?case by simp
next
  case (Cons x xs)
  have "fst ` set (itemsById (setIndex (item_id x) x t))
          \<subseteq> insert (item_id x) (fst ` set (itemsById t))"
    by (auto simp: setIndex_def dom_update)
  with Cons.IH [of "setIndex (item_id x) x t"] show ?case by auto
qed

lemma rebuild_proto:
  "itemsProto (foldl (\<lambda>t it. setIndex (item_id it) it t) t xs) \<noteq> None \<Longrightarrow>
   itemsProto t \<noteq> None \<or> ''__proto__'' \<in> item_id ` set xs"
proof (induction xs arbitrary: t)
  case Nil
  then show ?case by simp
next
  case (Cons x xs)
  from Cons.prems have "itemsProto (setIndex (item_id x) x t) \<noteq> None
      \<or> ''__proto__'' \<in> item_id ` set xs"
    using Cons.IH [of "setIndex (item_id x) x t"] by simp
  then show ?case by (auto simp: setIndex_def split: if_splits)
qed

lemma rebuildItemsIndex_invariant:
  assumes "distinct (map item_id (items s))"
  shows "storeInvariant (rebuildItemsIndex s)"
proof -
  define s0 where "s0 = s\<lparr>itemsById := [], itemsProto := None\<rparr>"
  define r where "r = foldl (\<lambda>t it. setIndex (item_id it) it t) s0 (items s)"
  have r: "rebuildItemsIndex s = r" by (simp add: rebuildItemsIndex_def r_def s0_def)
  have its: "items r = items s" by (simp add: r_def rebuild_items s0_def)
  have a: "list_all (\<lambda>i. lookupIndex r (item_id i) = Some (ItemVal i)) (items s)"
    unfolding list_all_iff r_def using rebuild_lookup [OF assms] by blast
  have "fst ` set (itemsById r) \<subseteq> item_id ` set (items s)"
    using rebuild_keys [of s0 "items s"] by (simp add: r_def s0_def)
  then have b: "list_all (\<lambda>(k, v). k \<in> set (map item_id (items s))) (itemsById r)"
    unfolding list_all_iff by force
  have c: "itemsProto r \<noteq> None \<longrightarrow> ''__proto__'' \<in> set (map item_id (items s))"
    using rebuild_proto [of s0 "items s"] by (auto simp: r_def s0_def)
  from a b c assms show ?thesis
    by (simp add: r storeInvariant_def indexConsistent_def its)
qed

text \<open>
  Claim C9.  In a state whose index is consistent with the items collection,
  \<open>addItem\<close> gives the new item an id that no item has: the base id (the given id,
  or the slug of the name) when the index reads as empty under it, else the first of
  \<open>base-1\<close>, \<open>base-2\<close>, ... under which it does.  The item is appended to the items and
  stored in the index under its id, every other read of the index is as before, the
  index stays consistent, and the store invariant (pairwise distinct ids, consistent
  index) is preserved.  The loop reads the index as the code does, so a name that
  every object inherits, such as \<^verbatim>\<open>constructor\<close>, counts as taken.
  \<open>rebuildItemsIndex\<close> establishes the invariant from any collection with distinct
  ids (lemma \<open>rebuildItemsIndex_invariant\<close>).
\<close>

theorem addItem_fresh_id:
  assumes "indexConsistent s"
  shows "item_id (fst (addItem d s)) \<notin> set (map item_id (items s))
       \<and> lookupIndex s (item_id (fst (addItem d s))) = None
       \<and> items (snd (addItem d s)) = items s @ [fst (addItem d s)]
       \<and> itemsById (snd (addItem d s)) =
           AList.update (item_id (fst (addItem d s))) (fst (addItem d s)) (itemsById s)
       \<and> lookupIndex (snd (addItem d s)) =
           (lookupIndex s)(item_id (fst (addItem d s)) \<mapsto> ItemVal (fst (addItem d s)))
       \<and> indexConsistent (snd (addItem d s))
       \<and> (storeInvariant s \<longrightarrow> storeInvariant (snd (addItem d s)))
       \<and> (item_id (fst (addItem d s)) = baseId d \<and> lookupIndex s (baseId d) = None
          \<or> lookupIndex s (baseId d) \<noteq> None \<and>
            (\<exists>n\<ge>1. item_id (fst (addItem d s)) = baseId d @ ''-'' @ showNat n \<and>
               (\<forall>m. 1 \<le> m \<and> m < n \<longrightarrow>
                  lookupIndex s (baseId d @ ''-'' @ showNat m) \<noteq> None)))"
proof -
  define it where "it = fst (addItem d s)"
  define s' where "s' = snd (addItem d s)"
  have free: "lookupIndex s (item_id it) = None"
    unfolding it_def by (simp add: addItem_fields(1) freeId_free)
  have new: "item_id it \<notin> set (map item_id (items s))"
  proof
    assume "item_id it \<in> set (map item_id (items s))"
    then obtain i where i: "i \<in> set (items s)" "item_id i = item_id it" by auto
    from consistent_lookup [OF assms i(1)] i(2) free show False by simp
  qed
  have its: "items s' = items s @ [it]" unfolding it_def s'_def by (rule addItem_fields)
  have own: "itemsById s' = AList.update (item_id it) it (itemsById s)"
    unfolding it_def s'_def by (rule addItem_fields)
  have proto: "itemsProto s' = itemsProto s" unfolding s'_def by (rule addItem_fields)
  have idx: "lookupIndex s' = (lookupIndex s)(item_id it \<mapsto> ItemVal it)"
    unfolding it_def s'_def by (rule addItem_lookup)
  have c1: "list_all (\<lambda>i. lookupIndex s' (item_id i) = Some (ItemVal i)) (items s')"
    unfolding list_all_iff
  proof
    fix i assume "i \<in> set (items s')"
    then consider "i = it" | "i \<in> set (items s)" unfolding its by auto
    then show "lookupIndex s' (item_id i) = Some (ItemVal i)"
    proof cases
      case 1
      then show ?thesis by (simp add: idx)
    next
      case 2
      then have "item_id i \<in> set (map item_id (items s))" by simp
      with new have "item_id i \<noteq> item_id it" by metis
      moreover from 2 assms have "lookupIndex s (item_id i) = Some (ItemVal i)"
        by (simp add: consistent_lookup)
      ultimately show ?thesis by (simp add: idx)
    qed
  qed
  have "fst ` set (itemsById s') = insert (item_id it) (fst ` set (itemsById s))"
    by (simp add: own dom_update)
  moreover have "fst ` set (itemsById s) \<subseteq> set (map item_id (items s))"
    using assms by (auto simp: indexConsistent_def list_all_iff)
  ultimately have "fst ` set (itemsById s') \<subseteq> set (map item_id (items s'))"
    unfolding its by auto
  then have c2: "list_all (\<lambda>(k, v). k \<in> set (map item_id (items s'))) (itemsById s')"
    unfolding list_all_iff by force
  have c3: "itemsProto s' \<noteq> None \<longrightarrow> ''__proto__'' \<in> set (map item_id (items s'))"
    using assms by (auto simp: indexConsistent_def proto its)
  have cons: "indexConsistent s'"
    using c1 c2 c3 by (simp add: indexConsistent_def)
  have inv: "storeInvariant s'" if "storeInvariant s"
    using that cons new its by (simp add: storeInvariant_def)
  have form: "item_id it = baseId d \<and> lookupIndex s (baseId d) = None
          \<or> lookupIndex s (baseId d) \<noteq> None \<and>
            (\<exists>n\<ge>1. item_id it = baseId d @ ''-'' @ showNat n \<and>
               (\<forall>m. 1 \<le> m \<and> m < n \<longrightarrow>
                  lookupIndex s (baseId d @ ''-'' @ showNat m) \<noteq> None))"
    using freeId_form [of s "baseId d" "baseId d" 1]
    unfolding it_def by (simp add: addItem_fields(1))
  from new free its own idx cons inv form show ?thesis
    unfolding it_def s'_def by blast
qed

theorem addItem_fresh_id_witness:
  "indexConsistent ex_state
   \<and> storeInvariant ex_state
   \<and> baseId ex_milk_data = ''milk''
   \<and> item_id (fst (addItem ex_milk_data ex_state)) = ''milk-1''
   \<and> map item_id (items (snd (addItem ex_milk_data ex_state))) = [''milk'', ''milk-1'']
   \<and> indexConsistent (snd (addItem ex_milk_data ex_state))
   \<and> storeInvariant (snd (addItem ex_milk_data ex_state))
   \<and> baseId ex_ctor_data = ''constructor''
   \<and> lookupIndex ex_state ''constructor'' = Some OtherVal
   \<and> item_id (fst (addItem ex_ctor_data ex_state)) = ''constructor-1''
   \<and> storeInvariant (snd (addItem ex_ctor_data ex_state))"
proof -
  have c: "indexConsistent ex_state"
    by (simp add: indexConsistent_def lookupIndex_def ex_state_def ex_milk_def)
  have i: "storeInvariant ex_state"
    using c by (simp add: storeInvariant_def ex_state_def)
  have b: "baseId ex_milk_data = ''milk''" by code_simp
  have f: "item_id (fst (addItem ex_milk_data ex_state)) = ''milk-1''" by code_simp
  have b2: "baseId ex_ctor_data = ''constructor''" by code_simp
  have l2: "lookupIndex ex_state ''constructor'' = Some OtherVal" by code_simp
  have f2: "item_id (fst (addItem ex_ctor_data ex_state)) = ''constructor-1''" by code_simp
  have m: "map item_id (items ex_state) = [''milk'']" by (simp add: ex_state_def ex_milk_def)
  from addItem_fresh_id [OF c, of ex_milk_data] i
  have r1: "items (snd (addItem ex_milk_data ex_state)) =
              items ex_state @ [fst (addItem ex_milk_data ex_state)]"
    and r2: "indexConsistent (snd (addItem ex_milk_data ex_state))"
    and r3: "storeInvariant (snd (addItem ex_milk_data ex_state))" by blast+
  from addItem_fresh_id [OF c, of ex_ctor_data] i
  have r4: "storeInvariant (snd (addItem ex_ctor_data ex_state))" by blast
  have r5: "map item_id (items (snd (addItem ex_milk_data ex_state))) = [''milk'', ''milk-1'']"
    by (simp add: r1 m f)
  from c i b f r5 r2 r3 b2 l2 f2 r4 show ?thesis by (intro conjI)
qed
subsection \<open>Finding or creating an item\<close>

lemma find_snoc_fresh:
  "list_all (\<lambda>x. \<not> p x) xs \<Longrightarrow> p y \<Longrightarrow> List.find p (xs @ [y]) = Some y"
  by (induction xs) auto

lemma find_None_list_all: "List.find p xs = None \<longleftrightarrow> list_all (\<lambda>x. \<not> p x) xs"
  by (induction xs) auto

lemma findOrCreateItem_unfold:
  "findOrCreateItem nm d t =
      (case List.find (sameName nm) (items t) of
         Some it \<Rightarrow> (it, t)
       | None \<Rightarrow> addItem \<lparr>d_id = None, d_name = nm,
                   d_category = Some (opt_or (def_category d) ''Other|Other''),
                   d_unit = Some (opt_or (def_unit d) ''item''),
                   d_sources = Some (case def_sources d of None \<Rightarrow> [] | Some ss \<Rightarrow> ss)\<rparr> t)"
  unfolding findOrCreateItem_def sameName_def by (rule refl)

lemma findOrCreateItem_found:
  "List.find (sameName nm) (items t) = Some it \<Longrightarrow> findOrCreateItem nm d t = (it, t)"
  by (simp only: findOrCreateItem_unfold option.case)


lemma findOrCreateItem_created:
  assumes "List.find (sameName nm) (items t) = None"
  shows "findOrCreateItem nm d t = addItem \<lparr>d_id = None, d_name = nm,
                   d_category = Some (opt_or (def_category d) ''Other|Other''),
                   d_unit = Some (opt_or (def_unit d) ''item''),
                   d_sources = Some (case def_sources d of None \<Rightarrow> [] | Some ss \<Rightarrow> ss)\<rparr> t"
  using assms by (simp only: findOrCreateItem_unfold option.case)

lemma sameName_cong: "toLowerCase n1 = toLowerCase n2 \<Longrightarrow> sameName n2 = sameName n1"
  by (rule ext) (simp add: sameName_def)

lemma addItem_named:
  assumes "d_name d = nm"
  shows "sameName nm (fst (addItem d s))" "items (snd (addItem d s)) = items s @ [fst (addItem d s)]"
  using assms by (simp_all add: sameName_def addItem_fields)

lemma findOrCreateItem_new:
  assumes "List.find (sameName nm) (items s) = None"
  shows "sameName nm (fst (findOrCreateItem nm d s))"
    and "items (snd (findOrCreateItem nm d s)) = items s @ [fst (findOrCreateItem nm d s)]"
proof -
  have r: "findOrCreateItem nm d s = addItem \<lparr>d_id = None, d_name = nm,
                   d_category = Some (opt_or (def_category d) ''Other|Other''),
                   d_unit = Some (opt_or (def_unit d) ''item''),
                   d_sources = Some (case def_sources d of None \<Rightarrow> [] | Some ss \<Rightarrow> ss)\<rparr> s"
    using assms by (rule findOrCreateItem_created)
  show "sameName nm (fst (findOrCreateItem nm d s))"
    unfolding r by (rule addItem_named) simp
  show "items (snd (findOrCreateItem nm d s)) = items s @ [fst (findOrCreateItem nm d s)]"
    unfolding r by (rule addItem_named) simp
qed

lemma findOrCreateItem_first:
  "sameName nm (fst (findOrCreateItem nm d s))
   \<and> List.find (sameName nm) (items (snd (findOrCreateItem nm d s))) =
       Some (fst (findOrCreateItem nm d s))
   \<and> (list_all (\<lambda>i. \<not> sameName nm i) (items s) \<longrightarrow>
        items (snd (findOrCreateItem nm d s)) = items s @ [fst (findOrCreateItem nm d s)]
        \<and> filter (sameName nm) (items (snd (findOrCreateItem nm d s))) =
            [fst (findOrCreateItem nm d s)])
   \<and> (\<not> list_all (\<lambda>i. \<not> sameName nm i) (items s) \<longrightarrow>
        snd (findOrCreateItem nm d s) = s
        \<and> List.find (sameName nm) (items s) = Some (fst (findOrCreateItem nm d s)))"
proof (cases "List.find (sameName nm) (items s)")
  case (Some it)
  have r: "findOrCreateItem nm d s = (it, s)"
    using Some by (rule findOrCreateItem_found)
  from Some have m: "sameName nm it" by (auto simp: find_Some_iff)
  from Some have nf: "\<not> list_all (\<lambda>i. \<not> sameName nm i) (items s)"
    by (simp add: find_None_list_all [symmetric])
  show ?thesis unfolding r fst_conv snd_conv
  proof (intro conjI impI)
    show "sameName nm it" by (rule m)
    show "List.find (sameName nm) (items s) = Some it"
      and "List.find (sameName nm) (items s) = Some it" by (rule Some)+
    show "s = s" by (rule refl)
    show "items s = items s @ [it]" if "list_all (\<lambda>i. \<not> sameName nm i) (items s)"
      using that nf by (rule notE [rotated])
    show "filter (sameName nm) (items s) = [it]" if "list_all (\<lambda>i. \<not> sameName nm i) (items s)"
      using that nf by (rule notE [rotated])
  qed
next
  case None
  define it where "it = fst (findOrCreateItem nm d s)"
  define s1 where "s1 = snd (findOrCreateItem nm d s)"
  from None have fresh: "list_all (\<lambda>i. \<not> sameName nm i) (items s)"
    by (simp add: find_None_list_all)
  have m: "sameName nm it" unfolding it_def using None by (rule findOrCreateItem_new)
  have its: "items s1 = items s @ [it]" unfolding it_def s1_def using None by (rule findOrCreateItem_new)
  have f: "List.find (sameName nm) (items s1) = Some it"
    unfolding its using fresh m by (rule find_snoc_fresh)
  have flt: "filter (sameName nm) (items s1) = [it]"
    unfolding its using fresh m by (rule filter_fresh_snoc)
  show ?thesis unfolding it_def [symmetric] s1_def [symmetric]
  proof (intro conjI impI)
    show "sameName nm it" by (rule m)
    show "List.find (sameName nm) (items s1) = Some it" by (rule f)
    show "items s1 = items s @ [it]" by (rule its)
    show "filter (sameName nm) (items s1) = [it]" by (rule flt)
    show "s1 = s" if "\<not> list_all (\<lambda>i. \<not> sameName nm i) (items s)"
      using fresh that by (rule notE [rotated])
    show "List.find (sameName nm) (items s) = Some it"
      if "\<not> list_all (\<lambda>i. \<not> sameName nm i) (items s)"
      using fresh that by (rule notE [rotated])
  qed
qed


text \<open>
  Claim C5, as amended.  \<open>findOrCreateItem\<close> is idempotent per name: a second call with a name
  that is the same without regard to case returns the item of the first call and
  leaves the state as the first call left it.  The returned item has that name.  When
  no item had the name before the first call, the items collection is what it was
  plus that one item, which is then the only item with the name; when some item had
  it, the collection is unchanged and the first such item is returned.
\<close>

theorem findOrCreateItem_idempotent:
  assumes "toLowerCase n1 = toLowerCase n2"
  shows "fst (findOrCreateItem n2 d2 (snd (findOrCreateItem n1 d1 s))) = fst (findOrCreateItem n1 d1 s)
       \<and> snd (findOrCreateItem n2 d2 (snd (findOrCreateItem n1 d1 s))) = snd (findOrCreateItem n1 d1 s)
       \<and> sameName n1 (fst (findOrCreateItem n1 d1 s))
       \<and> (list_all (\<lambda>i. \<not> sameName n1 i) (items s) \<longrightarrow>
            items (snd (findOrCreateItem n2 d2 (snd (findOrCreateItem n1 d1 s)))) =
              items s @ [fst (findOrCreateItem n1 d1 s)]
            \<and> filter (sameName n1)
                (items (snd (findOrCreateItem n2 d2 (snd (findOrCreateItem n1 d1 s))))) =
                [fst (findOrCreateItem n1 d1 s)])
       \<and> (\<not> list_all (\<lambda>i. \<not> sameName n1 i) (items s) \<longrightarrow>
            snd (findOrCreateItem n2 d2 (snd (findOrCreateItem n1 d1 s))) = s
            \<and> List.find (sameName n1) (items s) = Some (fst (findOrCreateItem n1 d1 s)))
       \<and> length (filter (sameName n1)
            (items (snd (findOrCreateItem n2 d2 (snd (findOrCreateItem n1 d1 s)))))) =
           max 1 (length (filter (sameName n1) (items s)))"
proof -
  define it where "it = fst (findOrCreateItem n1 d1 s)"
  define s1 where "s1 = snd (findOrCreateItem n1 d1 s)"
  note first = findOrCreateItem_first [of n1 d1 s, folded it_def s1_def]
  from first have f1: "List.find (sameName n1) (items s1) = Some it" by (rule conjunct1 [OF conjunct2])
  have sn: "sameName n2 = sameName n1" using assms by (rule sameName_cong)
  from f1 have "List.find (sameName n2) (items s1) = Some it" by (simp only: sn)
  then have r2: "findOrCreateItem n2 d2 s1 = (it, s1)" by (rule findOrCreateItem_found)
  have len: "length (filter (sameName n1) (items s1)) = max 1 (length (filter (sameName n1) (items s)))"
  proof (cases "list_all (\<lambda>i. \<not> sameName n1 i) (items s)")
    case True
    with first have "filter (sameName n1) (items s1) = [it]" by blast
    moreover from True have "filter (sameName n1) (items s) = []"
      by (simp add: filter_empty_conv list_all_iff)
    ultimately show ?thesis by simp
  next
    case False
    with first have e: "s1 = s" and "List.find (sameName n1) (items s) = Some it" by blast+
    then have "it \<in> set (items s)" "sameName n1 it" by (auto simp: find_Some_iff)
    then have "filter (sameName n1) (items s) \<noteq> []" by (auto simp: filter_empty_conv)
    then have "1 \<le> length (filter (sameName n1) (items s))"
      by (cases "filter (sameName n1) (items s)") simp_all
    then have "max 1 (length (filter (sameName n1) (items s))) =
        length (filter (sameName n1) (items s))" by (rule max_absorb2)
    with e show ?thesis by simp
  qed
  show ?thesis
    unfolding it_def [symmetric] s1_def [symmetric] r2 fst_conv snd_conv
    using first len by blast
qed

theorem findOrCreateItem_idempotent_witness:
  "toLowerCase ''Milk'' = toLowerCase ''MILK''
   \<and> fst (findOrCreateItem ''Milk'' ex_defaults ex_empty) =
       \<lparr>item_id = ''milk'', item_name = ''Milk'', item_category = ''Other|Other'',
        item_unit = ''item'', item_sources = []\<rparr>
   \<and> fst (findOrCreateItem ''MILK'' ex_defaults (snd (findOrCreateItem ''Milk'' ex_defaults ex_empty))) =
       fst (findOrCreateItem ''Milk'' ex_defaults ex_empty)
   \<and> items (snd (findOrCreateItem ''MILK'' ex_defaults
        (snd (findOrCreateItem ''Milk'' ex_defaults ex_empty)))) =
       [\<lparr>item_id = ''milk'', item_name = ''Milk'', item_category = ''Other|Other'',
         item_unit = ''item'', item_sources = []\<rparr>]
   \<and> items ex_state = [ex_milk]
   \<and> fst (findOrCreateItem ''Milk'' ex_defaults ex_state) = ex_milk
   \<and> fst (findOrCreateItem ''MILK'' ex_defaults (snd (findOrCreateItem ''Milk'' ex_defaults ex_state))) =
       ex_milk
   \<and> snd (findOrCreateItem ''MILK'' ex_defaults (snd (findOrCreateItem ''Milk'' ex_defaults ex_state))) =
       ex_state"
proof -
  have lc: "toLowerCase ''Milk'' = toLowerCase ''MILK''" by (simp add: lower_milk)
  have e: "fst (findOrCreateItem ''Milk'' ex_defaults ex_empty) =
       \<lparr>item_id = ''milk'', item_name = ''Milk'', item_category = ''Other|Other'',
        item_unit = ''item'', item_sources = []\<rparr>"
    by code_simp
  have ie: "items ex_empty = []" by (simp add: ex_empty_def)
  have fr: "list_all (\<lambda>i. \<not> sameName ''Milk'' i) (items ex_empty)"
    by (simp add: ie)
  note th = findOrCreateItem_idempotent [OF lc, of ex_defaults ex_defaults ex_empty]
  from th have a: "fst (findOrCreateItem ''MILK'' ex_defaults
        (snd (findOrCreateItem ''Milk'' ex_defaults ex_empty))) =
       fst (findOrCreateItem ''Milk'' ex_defaults ex_empty)"
    by (rule conjunct1)
  from th fr have "items (snd (findOrCreateItem ''MILK'' ex_defaults
        (snd (findOrCreateItem ''Milk'' ex_defaults ex_empty)))) =
       items ex_empty @ [fst (findOrCreateItem ''Milk'' ex_defaults ex_empty)]"
    by blast
  then have b: "items (snd (findOrCreateItem ''MILK'' ex_defaults
        (snd (findOrCreateItem ''Milk'' ex_defaults ex_empty)))) =
       [\<lparr>item_id = ''milk'', item_name = ''Milk'', item_category = ''Other|Other'',
         item_unit = ''item'', item_sources = []\<rparr>]"
    by (simp add: e ie)
  have ist: "items ex_state = [ex_milk]" by (simp add: ex_state_def)
  have sm: "sameName ''Milk'' ex_milk" by (simp add: sameName_def ex_milk_def)
  then have nf: "\<not> list_all (\<lambda>i. \<not> sameName ''Milk'' i) (items ex_state)"
    by (simp add: ist)
  have fs: "List.find (sameName ''Milk'') (items ex_state) = Some ex_milk"
    using sm by (simp add: ist)
  note th2 = findOrCreateItem_idempotent [OF lc, of ex_defaults ex_defaults ex_state]
  from th2 nf have u: "snd (findOrCreateItem ''MILK'' ex_defaults
        (snd (findOrCreateItem ''Milk'' ex_defaults ex_state))) = ex_state"
    and v: "List.find (sameName ''Milk'') (items ex_state) =
        Some (fst (findOrCreateItem ''Milk'' ex_defaults ex_state))"
    by blast+
  from v have c: "fst (findOrCreateItem ''Milk'' ex_defaults ex_state) = ex_milk"
    by (simp only: fs option.inject)
  from th2 have "fst (findOrCreateItem ''MILK'' ex_defaults
        (snd (findOrCreateItem ''Milk'' ex_defaults ex_state))) =
       fst (findOrCreateItem ''Milk'' ex_defaults ex_state)"
    by (rule conjunct1)
  then have d: "fst (findOrCreateItem ''MILK'' ex_defaults
        (snd (findOrCreateItem ''Milk'' ex_defaults ex_state))) = ex_milk"
    by (simp only: c)
  show ?thesis by (intro conjI) (rule lc e a b ist c d u)+
qed

text \<open>
  On a store that already holds an item with the name, the two calls add nothing:
  the collection does not contain one more item with that name than before.
\<close>

theorem findOrCreateItem_existing_counterexample:
  "length (filter (sameName ''Milk'') (items ex_state)) = 1
   \<and> items (snd (findOrCreateItem ''MILK'' ex_defaults
        (snd (findOrCreateItem ''Milk'' ex_defaults ex_state)))) = items ex_state
   \<and> length (filter (sameName ''Milk'') (items (snd (findOrCreateItem ''MILK'' ex_defaults
        (snd (findOrCreateItem ''Milk'' ex_defaults ex_state)))))) \<noteq>
      length (filter (sameName ''Milk'') (items ex_state)) + 1"
proof -
  have ist: "items ex_state = [ex_milk]" by (simp add: ex_state_def)
  have sm: "sameName ''Milk'' ex_milk" by (simp add: sameName_def ex_milk_def)
  have su: "sameName ''MILK'' ex_milk"
    by (simp add: sameName_def ex_milk_def lower_milk)
  have f1: "findOrCreateItem ''Milk'' ex_defaults ex_state = (ex_milk, ex_state)"
    by (rule findOrCreateItem_found) (simp add: ist sm)
  have f2: "findOrCreateItem ''MILK'' ex_defaults ex_state = (ex_milk, ex_state)"
    by (rule findOrCreateItem_found) (simp add: ist su)
  show ?thesis by (simp add: f1 f2 ist sm)
qed
subsection \<open>Combining quantities\<close>

































subsection \<open>Parsing a quantity\<close>

lemma split_not_Nil: "split c xs \<noteq> []"
  by (induction xs) (auto split: list.splits)

lemma split_no_sep: "c \<notin> set xs \<Longrightarrow> split c xs = [xs]"
  by (induction xs) auto

lemma split_sep: "c \<notin> set xs \<Longrightarrow> split c (xs @ c # ys) = xs # split c ys"
  by (induction xs) auto

lemma length_split: "length (split c xs) = Suc (length (filter (\<lambda>x. x = c) xs))"
proof (induction xs)
  case Nil
  show ?case by simp
next
  case (Cons x xs)
  then show ?case
    using split_not_Nil [of c xs] by (cases "split c xs") simp_all
qed

lemma split_two_sep: "split c xs = [a, b] \<Longrightarrow> c \<in> set xs"
proof (rule ccontr)
  assume s: "split c xs = [a, b]" and "c \<notin> set xs"
  then have "split c xs = [xs]" by (simp add: split_no_sep)
  with s show False by simp
qed

lemma not_digit_chars:
  "\<not> isDigit CHR ''/''" "\<not> isDigit CHR ''.''" "\<not> isDigit CHR ''-''" "\<not> isDigit CHR ''+''"
  "\<not> isDigit CHR ''e''" "\<not> isDigit CHR ''E''" "\<not> isDigit CHR ''I''"
  "\<not> isDigit CHR ''x''" "\<not> isDigit CHR ''X''" "\<not> isDigit CHR ''o''" "\<not> isDigit CHR ''O''"
  "\<not> isDigit CHR ''b''" "\<not> isDigit CHR ''B''"
  by code_simp+

lemma not_space_chars:
  "\<not> isSpace CHR ''/''" "\<not> isSpace CHR ''.''" "\<not> isSpace CHR ''e''" "\<not> isSpace CHR ''E''"
  "\<not> isSpace CHR ''x''" "\<not> isSpace CHR ''X''" "\<not> isSpace CHR ''o''" "\<not> isSpace CHR ''O''"
  "\<not> isSpace CHR ''b''" "\<not> isSpace CHR ''B''"
  by code_simp+

lemma digit_not_space: "isDigit c \<Longrightarrow> \<not> isSpace c"
proof -
  assume "isDigit c"
  then have "48 \<le> (of_char c :: nat)" by (simp add: isDigit_def)
  moreover from \<open>isDigit c\<close> have "(of_char c :: nat) \<le> 57" by (simp add: isDigit_def)
  ultimately have "(of_char c :: nat) \<notin> {9, 10, 11, 12, 13, 32, 160}" by auto
  then show ?thesis by (simp only: isSpace_def not_False_eq_True)
qed

lemma digit_chars:
  assumes "isDigit c"
  shows "c \<noteq> CHR ''/''" "c \<noteq> CHR ''.''" "c \<noteq> CHR ''-''" "c \<noteq> CHR ''+''" "c \<noteq> CHR ''e''"
    "c \<noteq> CHR ''E''" "c \<noteq> CHR ''I''" "radixOf c = 0"
  using assms not_digit_chars unfolding radixOf_def by metis+

lemma space_chars:
  assumes "isSpace c"
  shows "c \<noteq> CHR ''/''" "c \<noteq> CHR ''.''" "c \<noteq> CHR ''e''" "c \<noteq> CHR ''E''" "radixOf c = 0"
    "\<not> isDigit c"
  using assms not_space_chars digit_not_space unfolding radixOf_def by metis+

lemma trim_id:
  assumes "s \<noteq> []" "\<not> isSpace (hd s)" "\<not> isSpace (last s)"
  shows "trim s = s"
proof -
  from assms(1,2) have a: "dropWhile isSpace s = s" by (cases s) simp_all
  from assms(1,3) have "dropWhile isSpace (rev s) = rev s"
    by (cases "rev s") (simp_all add: last_rev [symmetric] hd_rev)
  with a show ?thesis by (simp add: trim_def)
qed

lemma span_prefix:
  assumes "list_all P xs" "ys = [] \<or> \<not> P (hd ys)"
  shows "takeWhile P (xs @ ys) = xs" "dropWhile P (xs @ ys) = ys"
proof -
  from assms(1) have a: "\<And>x. x \<in> set xs \<Longrightarrow> P x" by (simp add: list_all_iff)
  from assms(2) have t: "takeWhile P ys = []" and d: "dropWhile P ys = ys"
    by (cases ys; auto)+
  show "takeWhile P (xs @ ys) = xs" using a t by (simp add: takeWhile_append2)
  show "dropWhile P (xs @ ys) = ys" using a d by (simp add: dropWhile_append2)
qed

lemma digits_ends:
  assumes "digits ds"
  shows "ds \<noteq> []" "isDigit (hd ds)" "isDigit (last ds)" "list_all isDigit ds"
  using assms by (auto simp: digits_def list_all_iff)

lemma spaces_ends:
  assumes "spaces sp"
  shows "sp \<noteq> []" "isSpace (hd sp)" "list_all isSpace sp"
  using assms by (auto simp: spaces_def list_all_iff)

lemma nonDecimal_None: "\<forall>x\<in>set s. radixOf x = 0 \<Longrightarrow> nonDecimal s = None"
  by (auto simp: nonDecimal_def split: list.splits)

lemma splitSign_digit: "s \<noteq> [] \<Longrightarrow> isDigit (hd s) \<Longrightarrow> splitSign s = (False, s)"
  using not_digit_chars by (cases s) (auto simp: splitSign_def)

lemma not_Infinity: "s \<noteq> [] \<Longrightarrow> isDigit (hd s) \<Longrightarrow> s \<noteq> ''Infinity''"
  using not_digit_chars by auto

lemma Number_digits:
  assumes "digits ds"
  shows "Number ds = Fin (of_nat (digitsVal ds))"
proof -
  note e = digits_ends [OF assms]
  have t: "trim ds = ds"
    using e by (intro trim_id) (simp_all add: digit_not_space)
  have "\<forall>x\<in>set ds. radixOf x = 0"
    using e(4) by (auto simp: list_all_iff digit_chars)
  then have nd: "nonDecimal ds = None" by (rule nonDecimal_None)
  have ss: "splitSign ds = (False, ds)" using e by (simp add: splitSign_digit)
  have ni: "ds \<noteq> ''Infinity''" using e by (simp add: not_Infinity)
  have tw: "takeWhile isDigit ds = ds" "dropWhile isDigit ds = []"
    using span_prefix [of isDigit ds "[]"] e(4) by simp_all
  have sd: "scanDecimal ds = Some (of_nat (digitsVal ds), [])"
    using e(1) by (simp add: scanDecimal_def tw scanExponent_def)
  show ?thesis
    using e(1) ni by (simp add: Number_def t nd ss sd)
qed

lemma Number_spaced:
  assumes "digits w" "spaces sp" "digits a"
  shows "Number (w @ sp @ a) = NaN"
proof -
  note ew = digits_ends [OF assms(1)] and es = spaces_ends [OF assms(2)]
    and ea = digits_ends [OF assms(3)]
  define s where "s = w @ sp @ a"
  have hd: "hd s = hd w" and ne: "s \<noteq> []" using ew(1) by (simp_all add: s_def)
  have last: "last s = last a" using ea(1) by (simp add: s_def)
  have t: "trim s = s"
    using ne ew(2) ea(3) by (intro trim_id) (simp_all add: hd last digit_not_space)
  have "\<forall>x\<in>set s. radixOf x = 0"
    using ew(4) es(3) ea(4) by (auto simp: s_def list_all_iff digit_chars space_chars)
  then have nd: "nonDecimal s = None" by (rule nonDecimal_None)
  have ss: "splitSign s = (False, s)" using ne ew(2) by (simp add: splitSign_digit hd)
  have ni: "s \<noteq> ''Infinity''" using ne ew(2) by (simp add: not_Infinity hd)
  have nd2: "\<not> isDigit (hd (sp @ a))" using es by (simp add: space_chars)
  have tw: "takeWhile isDigit s = w" "dropWhile isDigit s = sp @ a"
    unfolding s_def using span_prefix [of isDigit w "sp @ a"] ew(4) nd2 by simp_all
  obtain c r where r: "sp @ a = c # r" and c: "isSpace c" using es by (cases sp) auto
  have se: "scanExponent m (sp @ a) = (m, sp @ a)" for m
    using c by (simp add: scanExponent_def r space_chars)
  have hdr: "hd (sp @ a) \<noteq> CHR ''.''" using c by (simp add: r space_chars)
  have sd: "scanDecimal s = Some (of_nat (digitsVal w), sp @ a)"
    unfolding scanDecimal_def Let_def tw using ew(1) hdr by (simp add: se)
  show ?thesis
    unfolding s_def [symmetric]
    using ne ni es(1) by (simp add: Number_def t nd ss sd)
qed

lemma fraction_digits:
  assumes "digits a" "digits b" "digitsVal b \<noteq> 0"
  shows "fractionPart (a @ ''/'' @ b) =
           Some (Fin (of_nat (digitsVal a) / of_nat (digitsVal b)))"
proof -
  note ea = digits_ends [OF assms(1)] and eb = digits_ends [OF assms(2)]
  have na: "CHR ''/'' \<notin> set a" and nb: "CHR ''/'' \<notin> set b"
    using ea(4) eb(4) not_digit_chars(1) by (auto simp: list_all_iff)
  have sp: "split (CHR ''/'') (a @ CHR ''/'' # b) = [a, b]"
    using split_sep [OF na, of b] split_no_sep [OF nb] by simp
  show ?thesis
    using assms(3)
    by (simp add: fractionPart_def sp Number_digits [OF assms(1)] Number_digits [OF assms(2)])
qed

lemma fraction_mixed:
  assumes "digits w" "spaces sp" "digits a" "digits b"
  shows "fractionPart (w @ sp @ a @ ''/'' @ b) = None"
proof -
  note ew = digits_ends [OF assms(1)] and es = spaces_ends [OF assms(2)]
    and ea = digits_ends [OF assms(3)] and eb = digits_ends [OF assms(4)]
  have n1: "CHR ''/'' \<notin> set (w @ sp @ a)"
    using ew(4) es(3) ea(4) not_digit_chars(1) not_space_chars(1) by (auto simp: list_all_iff)
  have nb: "CHR ''/'' \<notin> set b"
    using eb(4) not_digit_chars(1) by (auto simp: list_all_iff)
  have "split (CHR ''/'') ((w @ sp @ a) @ CHR ''/'' # b) = [w @ sp @ a, b]"
    using split_sep [OF n1, of b] split_no_sep [OF nb] by simp
  then have sp: "split (CHR ''/'') (w @ sp @ a @ CHR ''/'' # b) = [w @ sp @ a, b]" by simp
  show ?thesis
    by (simp add: fractionPart_def sp Number_spaced [OF assms(1,2,3)])
qed

lemma mixedMatch_digits:
  assumes "digits w" "spaces sp" "digits a" "digits b"
  shows "mixedMatch (w @ sp @ a @ ''/'' @ b) = Some (w, a, b)"
proof -
  note ew = digits_ends [OF assms(1)] and es = spaces_ends [OF assms(2)]
    and ea = digits_ends [OF assms(3)] and eb = digits_ends [OF assms(4)]
  have h1: "\<not> isDigit (hd (sp @ a @ ''/'' @ b))" using es by (simp add: space_chars)
  have h2: "\<not> isSpace (hd (a @ ''/'' @ b))" using ea by (simp add: digit_not_space)
  have h3: "\<not> isDigit (hd (''/'' @ b))" by (simp add: not_digit_chars)
  note s1 = span_prefix [of isDigit w "sp @ a @ ''/'' @ b", OF ew(4) disjI2 [OF h1]]
  note s2 = span_prefix [of isSpace sp "a @ ''/'' @ b", OF es(3) disjI2 [OF h2]]
  note s3 = span_prefix [of isDigit a "''/'' @ b", OF ea(4) disjI2 [OF h3]]
  show ?thesis
    unfolding mixedMatch_def Let_def s1 s2 s3
    using ew(1) es(1) ea(1) eb(1,4) by simp
qed

lemma mixedMatch_slash: "mixedMatch s = Some x \<Longrightarrow> CHR ''/'' \<in> set s"
proof -
  assume m: "mixedMatch s = Some x"
  define r3 where "r3 = dropWhile isDigit (dropWhile isSpace (dropWhile isDigit s))"
  from m have "r3 \<noteq> [] \<and> hd r3 = CHR ''/''"
    by (auto simp: mixedMatch_def Let_def r3_def split: if_splits)
  then have "CHR ''/'' \<in> set r3" by (cases r3) auto
  then have "CHR ''/'' \<in> set (dropWhile isSpace (dropWhile isDigit s))"
    unfolding r3_def by (rule set_dropWhileD)
  then have "CHR ''/'' \<in> set (dropWhile isDigit s)" by (rule set_dropWhileD)
  then show ?thesis by (rule set_dropWhileD)
qed

lemma mixedPart_no_slash: "CHR ''/'' \<notin> set s \<Longrightarrow> mixedPart s = None"
  using mixedMatch_slash [of s] by (cases "mixedMatch s") (auto simp: mixedPart_def)

lemma fraction_two_pieces:
  "length (split (CHR ''/'') str) \<le> 2 \<Longrightarrow> fractionPart str = pureFraction str"
proof -
  assume l: "length (split (CHR ''/'') str) \<le> 2"
  consider x where "split (CHR ''/'') str = [x]" | a b where "split (CHR ''/'') str = [a, b]"
  proof (cases "split (CHR ''/'') str")
    case Nil
    with split_not_Nil [of "CHR ''/''" str] show ?thesis by simp
  next
    case (Cons x xs)
    with l that show ?thesis by (cases xs) auto
  qed
  then show ?thesis
  proof cases
    case 1
    then show ?thesis by (simp add: fractionPart_def pureFraction_def)
  next
    case 2
    from split_two_sep [OF 2] 2 show ?thesis
      by (simp add: fractionPart_def pureFraction_def)
  qed
qed

lemma fraction_first_two:
  assumes "split (CHR ''/'') str = a # b # rest"
    "Number a \<noteq> NaN" "Number b \<noteq> NaN" "Number b \<noteq> Fin 0"
  shows "fractionPart str = Some (jsdiv (Number a) (Number b))"
proof -
  have "length (filter (\<lambda>x. x = CHR ''/'') str) = Suc (length rest)"
    using length_split [of "CHR ''/''" str] assms(1) by simp
  then have "filter (\<lambda>x. x = CHR ''/'') str \<noteq> []" by auto
  then have "CHR ''/'' \<in> set str" by (auto simp: filter_empty_conv)
  with assms show ?thesis by (simp add: fractionPart_def)
qed

lemma parseQuantity_unfold:
  "q \<noteq> [] \<Longrightarrow> parseQuantity (QStr q) =
     (case fractionPart (trim q) of
        Some r \<Rightarrow> r
      | None \<Rightarrow>
          (case mixedPart (trim q) of
             Some r \<Rightarrow> r
           | None \<Rightarrow> if parseFloat (trim q) = NaN then Fin 1 else parseFloat (trim q)))"
  unfolding parseQuantity_def Let_def by simp

lemma trim_fraction:
  assumes "digits a" "digits b"
  shows "trim (a @ ''/'' @ b) = a @ ''/'' @ b"
    "trim (a @ x @ y @ ''/'' @ b) = a @ x @ y @ ''/'' @ b"
proof -
  note ea = digits_ends [OF assms(1)] and eb = digits_ends [OF assms(2)]
  show "trim (a @ ''/'' @ b) = a @ ''/'' @ b"
    using ea eb by (intro trim_id) (simp_all add: digit_not_space)
  show "trim (a @ x @ y @ ''/'' @ b) = a @ x @ y @ ''/'' @ b"
    using ea eb by (intro trim_id) (simp_all add: digit_not_space)
qed

text \<open>
  Claim C2, as amended.  \<open>parseQuantity\<close> is a total function: it returns a number for
  every input.  On a string it returns \<open>1\<close> for the empty string; a fraction \<open>a/b\<close> of
  two numerals with \<open>b\<close> not zero is exactly \<open>a / b\<close>; a mixed fraction \<open>w a/b\<close> (numeral,
  white space, numeral, slash, numeral not zero) is \<open>w + a / b\<close>; a string without a
  slash is what \<^verbatim>\<open>parseFloat\<close> reads from it, and \<open>1\<close> when that is not a number.  In
  general the fraction step reads the first two pieces around slashes and ignores any
  further ones: when both are numeric and the second is not zero, their quotient is
  returned.  On every string with at most one slash (at most two pieces), and on every
  string whose first two pieces are not such a fraction, the result is that of the
  parsing order as the specification words it.
\<close>

theorem parseQuantity_order:
  "parseQuantity (QStr []) = Fin 1
 \<and> (digits a \<and> digits b \<and> digitsVal b \<noteq> 0 \<longrightarrow>
      parseQuantity (QStr (a @ ''/'' @ b)) = Fin (of_nat (digitsVal a) / of_nat (digitsVal b)))
 \<and> (digits w \<and> spaces sp \<and> digits a \<and> digits b \<and> digitsVal b \<noteq> 0 \<longrightarrow>
      parseQuantity (QStr (w @ sp @ a @ ''/'' @ b)) =
        Fin (of_nat (digitsVal w) + of_nat (digitsVal a) / of_nat (digitsVal b)))
 \<and> (q \<noteq> [] \<and> CHR ''/'' \<notin> set (trim q) \<longrightarrow>
      parseQuantity (QStr q) =
        (if parseFloat (trim q) = NaN then Fin 1 else parseFloat (trim q)))
 \<and> (q \<noteq> [] \<and> split (CHR ''/'') (trim q) = x # y # rest \<and>
    Number x \<noteq> NaN \<and> Number y \<noteq> NaN \<and> Number y \<noteq> Fin 0 \<longrightarrow>
      parseQuantity (QStr q) = jsdiv (Number x) (Number y))
 \<and> (length (split (CHR ''/'') (trim q)) \<le> 2 \<longrightarrow>
      parseQuantity (QStr q) = parseQuantity_spec q)
 \<and> (fractionPart (trim q) = None \<longrightarrow> parseQuantity (QStr q) = parseQuantity_spec q)"
proof -
  have e: "parseQuantity (QStr []) = Fin 1" by (simp add: parseQuantity_def)
  have f: "parseQuantity (QStr (a @ ''/'' @ b)) =
      Fin (of_nat (digitsVal a) / of_nat (digitsVal b))"
    if h: "digits a \<and> digits b \<and> digitsVal b \<noteq> 0"
  proof -
    from h have da: "digits a" and db: "digits b" and nz: "digitsVal b \<noteq> 0" by simp_all
    have "a @ ''/'' @ b \<noteq> []" by simp
    from parseQuantity_unfold [OF this] show ?thesis
      by (simp only: trim_fraction(1) [OF da db] fraction_digits [OF da db nz] option.case)
  qed
  have m: "parseQuantity (QStr (w @ sp @ a @ ''/'' @ b)) =
      Fin (of_nat (digitsVal w) + of_nat (digitsVal a) / of_nat (digitsVal b))"
    if h: "digits w \<and> spaces sp \<and> digits a \<and> digits b \<and> digitsVal b \<noteq> 0"
  proof -
    from h have dw: "digits w" and ds: "spaces sp" and da: "digits a" and db: "digits b"
      and nz: "digitsVal b \<noteq> 0" by simp_all
    have mm: "mixedMatch (w @ sp @ a @ CHR ''/'' # b) = Some (w, a, b)"
      using mixedMatch_digits [OF dw ds da db] by simp
    have mp: "mixedPart (w @ sp @ a @ ''/'' @ b) =
        Some (Fin (of_nat (digitsVal w) + of_nat (digitsVal a) / of_nat (digitsVal b)))"
      using nz
      by (simp add: mixedPart_def mm
            Number_digits [OF dw] Number_digits [OF da] Number_digits [OF db])
    have "w @ sp @ a @ ''/'' @ b \<noteq> []" using digits_ends(1) [OF dw] by simp
    from parseQuantity_unfold [OF this] show ?thesis
      by (simp only: trim_fraction(2) [OF dw db] fraction_mixed [OF dw ds da db] mp option.case)
  qed
  have p: "parseQuantity (QStr q) =
        (if parseFloat (trim q) = NaN then Fin 1 else parseFloat (trim q))"
    if h: "q \<noteq> [] \<and> CHR ''/'' \<notin> set (trim q)"
  proof -
    from h have "fractionPart (trim q) = None" by (simp add: fractionPart_def)
    moreover from h have "mixedPart (trim q) = None" by (simp add: mixedPart_no_slash)
    ultimately show ?thesis using h by (simp add: parseQuantity_unfold)
  qed
  have t: "parseQuantity (QStr q) = jsdiv (Number x) (Number y)"
    if h: "q \<noteq> [] \<and> split (CHR ''/'') (trim q) = x # y # rest \<and>
      Number x \<noteq> NaN \<and> Number y \<noteq> NaN \<and> Number y \<noteq> Fin 0"
  proof -
    from h have "fractionPart (trim q) = Some (jsdiv (Number x) (Number y))"
      by (intro fraction_first_two) simp_all
    with h show ?thesis by (simp add: parseQuantity_unfold)
  qed
  have s: "parseQuantity (QStr q) = parseQuantity_spec q"
    if h: "fractionPart (trim q) = pureFraction (trim q)"
  proof (cases "q = []")
    case True
    then show ?thesis by (simp add: e parseQuantity_spec_def)
  next
    case False
    have "parseQuantity_spec q =
        (case pureFraction (trim q) of
           Some r \<Rightarrow> r
         | None \<Rightarrow>
             (case mixedPart (trim q) of
                Some r \<Rightarrow> r
              | None \<Rightarrow> if parseFloat (trim q) = NaN then Fin 1 else parseFloat (trim q)))"
      unfolding parseQuantity_spec_def Let_def using False by simp
    then show ?thesis by (simp only: parseQuantity_unfold [OF False] h)
  qed
  have s1: "parseQuantity (QStr q) = parseQuantity_spec q"
    if "length (split (CHR ''/'') (trim q)) \<le> 2"
    using that by (intro s fraction_two_pieces)
  have s2: "parseQuantity (QStr q) = parseQuantity_spec q"
    if h: "fractionPart (trim q) = None"
  proof -
    have "pureFraction (trim q) = None"
    proof (cases "length (split (CHR ''/'') (trim q)) \<le> 2")
      case True
      from fraction_two_pieces [OF this] h show ?thesis by simp
    next
      case False
      then show ?thesis
        by (auto simp: pureFraction_def split: list.splits)
    qed
    with h show ?thesis by (intro s) simp
  qed
  from e f m p t s1 s2 show ?thesis by blast
qed

lemma parse_examples:
  "parseQuantity (QStr ''1/2'') = Fin (1 / 2)"
  "parseQuantity (QStr ''1 1/2'') = Fin (3 / 2)"
  "parseQuantity (QStr ''abc'') = Fin 1"
  "parseQuantity (QStr ''1/2/3'') = Fin (1 / 2)"
  "parseQuantity_spec ''1/2/3'' = Fin 1"
  "parseFloat ''1/2/3'' = Fin 1"
  "split (CHR ''/'') (trim ''1/2/3'') = [''1'', ''2'', ''3'']"
  by code_simp+

theorem parseQuantity_order_witness:
  "digits ''1'' \<and> digits ''2'' \<and> spaces '' '' \<and> digitsVal ''2'' \<noteq> 0
   \<and> parseQuantity (QStr ''1/2'') = Fin (1 / 2)
   \<and> parseQuantity (QStr ''1 1/2'') = Fin (3 / 2)
   \<and> parseQuantity (QStr []) = Fin 1
   \<and> parseQuantity (QStr ''abc'') = Fin 1
   \<and> parseFloat (trim ''abc'') = NaN
   \<and> parseQuantity (QStr ''1/2'') = parseQuantity_spec ''1/2''"
proof -
  have d1: "digits ''1''" and d2: "digits ''2''" and sp: "spaces '' ''" by code_simp+
  have v: "digitsVal ''1'' = 1" "digitsVal ''2'' = 2" by code_simp+
  have nz: "digitsVal ''2'' \<noteq> 0" by (simp add: v)
  have ns: "CHR ''/'' \<notin> set (trim ''abc'')" by code_simp
  have pf: "parseFloat (trim ''abc'') = NaN" by code_simp
  have l: "length (split (CHR ''/'') (trim ''1/2'')) \<le> 2" by code_simp
  note th = parseQuantity_order [of "''1''" "''2''" "''1''" "'' ''" "''abc''" "''1''" "''2''" "[]"]
  note th2 = parseQuantity_order [of "''1''" "''2''" "''1''" "'' ''" "''1/2''" "''1''" "''2''" "[]"]
  from th d1 d2 nz have a: "parseQuantity (QStr (''1'' @ ''/'' @ ''2'')) =
      Fin (of_nat (digitsVal ''1'') / of_nat (digitsVal ''2''))" by blast
  from th d1 d2 sp nz have b: "parseQuantity (QStr (''1'' @ '' '' @ ''1'' @ ''/'' @ ''2'')) =
      Fin (of_nat (digitsVal ''1'') + of_nat (digitsVal ''1'') / of_nat (digitsVal ''2''))"
    by blast
  from th have c: "parseQuantity (QStr []) = Fin 1" by blast
  from th ns have "parseQuantity (QStr ''abc'') =
      (if parseFloat (trim ''abc'') = NaN then Fin 1 else parseFloat (trim ''abc''))"
    by blast
  then have d: "parseQuantity (QStr ''abc'') = Fin 1" by (simp add: pf)
  from th2 l have e: "parseQuantity (QStr ''1/2'') = parseQuantity_spec ''1/2''" by blast
  from a have a': "parseQuantity (QStr ''1/2'') = Fin (1 / 2)" by (simp add: v)
  from b have b': "parseQuantity (QStr ''1 1/2'') = Fin (3 / 2)" by (simp add: v)
  from d1 d2 sp nz a' b' c d pf e show ?thesis by (intro conjI)
qed

text \<open>
  A string with two slashes is not a pure fraction, and the parsing order of the
  specification gives it to the floating-point parse, which reads \<open>1\<close>; the code takes
  the first two pieces as a fraction and returns one half.
\<close>

theorem parseQuantity_extra_pieces_counterexample:
  "split (CHR ''/'') (trim ''1/2/3'') = [''1'', ''2'', ''3'']
   \<and> parseFloat ''1/2/3'' = Fin 1
   \<and> parseQuantity_spec ''1/2/3'' = Fin 1
   \<and> parseQuantity (QStr ''1/2/3'') = Fin (1 / 2)
   \<and> parseQuantity (QStr ''1/2/3'') \<noteq> parseQuantity_spec ''1/2/3''"
  by (simp add: parse_examples)

end
